theory Spec2Isabelle
  imports Complex_Main
begin

section \<open>Exceptions\<close>

text \<open>
  Exceptions are values. The module raises \<open>RuntimeError\<close> and \<open>ValueError\<close> itself,
  subscripting raises \<open>KeyError\<close> and \<open>IndexError\<close>, date arithmetic that leaves the range
  of \<open>datetime\<close> raises \<open>OverflowError\<close>, and everything raised inside a
  library call (requests, pandas, matplotlib) is a \<open>lib_exn\<close> wrapped in \<open>Raised\<close>.
  The messages of the module's own exceptions are kept structured instead of formatted.
\<close>

datatype message =
    UnsupportedCity string
  | IntervalMustBeMonth
  | MaxRetriesExceeded nat
  | MissingDaily
  | MissingKey string

datatype lib_exn =
    RequestException string
  | HTTPError nat
  | OtherException string
  | KeyboardInterrupt

datatype exn =
    RuntimeError message
  | ValueError message
  | KeyError string
  | IndexError
  | OverflowError
  | Raised lib_exn

text \<open>\<open>isinstance(e, requests.exceptions.RequestException)\<close>: \<open>HTTPError\<close> is a subclass.\<close>

fun is_RequestException :: "exn \<Rightarrow> bool" where
  "is_RequestException (Raised (RequestException _)) = True"
| "is_RequestException (Raised (HTTPError _)) = True"
| "is_RequestException _ = False"

fun is_HTTPError :: "exn \<Rightarrow> bool" where
  "is_HTTPError (Raised (HTTPError _)) = True"
| "is_HTTPError _ = False"

fun http_status :: "exn \<Rightarrow> nat" where
  "http_status (Raised (HTTPError c)) = c"
| "http_status _ = 0"

fun is_RuntimeError :: "exn \<Rightarrow> bool" where
  "is_RuntimeError (RuntimeError _) = True"
| "is_RuntimeError _ = False"

text \<open>\<open>isinstance(e, Exception)\<close>: everything but the interrupt.\<close>

fun is_Exception :: "exn \<Rightarrow> bool" where
  "is_Exception (Raised KeyboardInterrupt) = False"
| "is_Exception _ = True"

section \<open>Calendar dates\<close>

text \<open>
  The two \<open>datetime\<close> values of \<open>get_meteo_data\<close> come from \<open>strptime\<close> with the format
  year-month-day, so their time of day is midnight and only the calendar date matters.
  A date is a year, a month and a day of the proleptic Gregorian calendar; parsing the
  two strings is outside the model. The dates of \<open>datetime\<close> run from year 1 to year
  \<open>MAXYEAR\<close>, and arithmetic that would leave this range raises \<open>OverflowError\<close>.
\<close>

datatype date = Date (year: nat) (month: nat) (day: nat)

definition MAXYEAR :: nat where
  "MAXYEAR = 9999"

definition leap :: "nat \<Rightarrow> bool" where
  "leap y = (y mod 4 = 0 \<and> (y mod 100 \<noteq> 0 \<or> y mod 400 = 0))"

definition days_in_month :: "nat \<Rightarrow> nat \<Rightarrow> nat" where
  "days_in_month y m =
     (if m = 2 then (if leap y then 29 else 28)
      else if m = 4 \<or> m = 6 \<or> m = 9 \<or> m = 11 then 30 else 31)"

definition valid_date :: "date \<Rightarrow> bool" where
  "valid_date d =
     (1 \<le> year d \<and> year d \<le> MAXYEAR \<and> 1 \<le> month d \<and> month d \<le> 12 \<and>
      1 \<le> day d \<and> day d \<le> days_in_month (year d) (month d))"

text \<open>The comparisons \<open><=\<close> and \<open><\<close> of two dates, and \<open>min\<close>.\<close>

definition date_less :: "date \<Rightarrow> date \<Rightarrow> bool" where
  "date_less a b =
     (year a < year b \<or> (year a = year b \<and>
       (month a < month b \<or> (month a = month b \<and> day a < day b))))"

definition date_le :: "date \<Rightarrow> date \<Rightarrow> bool" where
  "date_le a b = (a = b \<or> date_less a b)"

definition date_min :: "date \<Rightarrow> date \<Rightarrow> date" where
  "date_min a b = (if date_less b a then b else a)"

text \<open>
  \<open>d + timedelta(days=1)\<close>: the day after the last day of year \<open>MAXYEAR\<close> is out of range.
\<close>

definition tomorrow :: "date \<Rightarrow> exn + date" where
  "tomorrow d =
     (if day d < days_in_month (year d) (month d) then Inr (Date (year d) (month d) (day d + 1))
      else if month d < 12 then Inr (Date (year d) (month d + 1) 1)
      else if year d < MAXYEAR then Inr (Date (year d + 1) 1 1)
      else Inl OverflowError)"

text \<open>
  \<open>d - timedelta(days=1)\<close>. The loop subtracts a day only from the first day of a month that
  follows the month of a date, so never from the first day of year 1, where \<open>datetime\<close> has
  no day before (lemma \<open>next_date_after_first_day\<close> below).
\<close>

definition yesterday :: "date \<Rightarrow> date" where
  "yesterday d =
     (if 1 < day d then Date (year d) (month d) (day d - 1)
      else if 1 < month d then Date (year d) (month d - 1) (days_in_month (year d) (month d - 1))
      else Date (year d - 1) 12 31)"

text \<open>
  \<open>d + timedelta(days=n)\<close>, one day at a time: it raises exactly when the date \<open>n\<close> days
  later lies after the last day of year \<open>MAXYEAR\<close>.
\<close>

fun add_days :: "nat \<Rightarrow> date \<Rightarrow> exn + date" where
  "add_days 0 d = Inr d"
| "add_days (Suc n) d = (case tomorrow d of Inl e \<Rightarrow> Inl e | Inr d' \<Rightarrow> add_days n d')"

text \<open>\<open>d.replace(day=1)\<close>.\<close>

definition replace_day1 :: "date \<Rightarrow> date" where
  "replace_day1 d = Date (year d) (month d) 1"

text \<open>Months counted from year 0, to compare the months of two dates.\<close>

definition month_index :: "date \<Rightarrow> nat" where
  "month_index d = 12 * year d + month d"

text \<open>The first day of the month after the one of a date, and the last day of its month.\<close>

definition first_of_next_month :: "date \<Rightarrow> date" where
  "first_of_next_month d =
     (if month d < 12 then Date (year d) (month d + 1) 1 else Date (year d + 1) 1 1)"

definition last_of_month :: "date \<Rightarrow> date" where
  "last_of_month d = Date (year d) (month d) (days_in_month (year d) (month d))"

section \<open>Constants\<close>

record coordinates =
  latitude :: rat
  longitude :: rat

definition COORDINATES :: "string \<rightharpoonup> coordinates" where
  "COORDINATES =
     [''Madrid'' \<mapsto> \<lparr>latitude = 40.4168, longitude = - 3.7038\<rparr>,
      ''London'' \<mapsto> \<lparr>latitude = 51.5074, longitude = - 0.1278\<rparr>,
      ''Rio de Janeiro'' \<mapsto> \<lparr>latitude = - 22.9068, longitude = - 43.1729\<rparr>]"

definition VARIABLES :: "string list" where
  "VARIABLES = [''temperature_2m_mean'', ''precipitation_sum'', ''wind_speed_10m_max'']"

definition MAX_RETRIES :: nat where
  "MAX_RETRIES = 5"

section \<open>Payloads and validate_response\<close>

text \<open>
  A payload is the decoded JSON object of a response: a dictionary whose entry \<open>daily\<close>,
  when present, is a dictionary from series names to arrays. The cells of the arrays are
  only copied, so their type is a parameter.
\<close>

type_synonym 'v series = "string \<rightharpoonup> 'v list"
type_synonym 'v payload = "string \<rightharpoonup> 'v series"

text \<open>The loop \<open>for key in VARIABLES\<close>, raising at the first key that is absent.\<close>

fun check_keys :: "string list \<Rightarrow> 'v series \<Rightarrow> exn + unit" where
  "check_keys [] dd = Inr ()"
| "check_keys (key # keys) dd =
     (if dd key = None then Inl (RuntimeError (MissingKey key)) else check_keys keys dd)"

definition validate_response :: "'v payload \<Rightarrow> exn + unit" where
  "validate_response data =
     (case data ''daily'' of
        None \<Rightarrow> Inl (RuntimeError MissingDaily)
      | Some dd \<Rightarrow> check_keys VARIABLES dd)"

section \<open>Requests, responses and the trace of effects\<close>

definition API_URL :: string where
  "API_URL = ''https://archive-api.open-meteo.com/v1/archive?''"

text \<open>The query parameters of one request; the two dates stand for their formatted strings.\<close>

record request = coordinates +
  start_date :: date
  end_date :: date
  daily :: string
  timezone :: string

fun join :: "string \<Rightarrow> string list \<Rightarrow> string" where
  "join sep [] = []"
| "join sep [x] = x"
| "join sep (x # y # ys) = x @ sep @ join sep (y # ys)"

text \<open>
  A response carries its status code and what \<open>response.json()\<close> does: it returns the
  payload or raises.
\<close>

record 'v response =
  status_code :: nat
  json :: "lib_exn + 'v payload"

text \<open>
  The transport is \<open>requests.get\<close>: what the call numbered \<open>k\<close> (counting from 0 all calls
  made so far) does on a request, raising or returning a response.
\<close>

type_synonym 'v transport = "nat \<Rightarrow> request \<Rightarrow> lib_exn + 'v response"

datatype level = INFO | WARNING | ERROR

datatype log_msg =
    FetchingInterval string date date
  | RequestFailed exn nat nat
  | HttpFailed exn nat
  | ErrorMessage exn
  | LoadingData
  | FetchingCity string
  | DataSaved
  | UnexpectedError exn

text \<open>
  Everything the program does to the outside world is appended to a trace, in order:
  the calls of the transport, the calls of \<open>time.sleep\<close> and the log records.
\<close>

datatype event = Get string request | Sleep nat | Log level log_msg

type_synonym trace = "event list"

fun is_Get :: "event \<Rightarrow> bool" where
  "is_Get (Get _ _) = True"
| "is_Get _ = False"

fun is_Sleep :: "event \<Rightarrow> bool" where
  "is_Sleep (Sleep _) = True"
| "is_Sleep _ = False"

definition n_calls :: "trace \<Rightarrow> nat" where
  "n_calls tr = length (filter is_Get tr)"

section \<open>fetch_data_interval\<close>

record 'v observation =
  city :: string
  date :: 'v
  temperature_2m_mean :: 'v
  precipitation_sum :: 'v
  wind_speed_10m_max :: 'v

definition and_then :: "exn + 'a \<Rightarrow> ('a \<Rightarrow> exn + 'b) \<Rightarrow> exn + 'b" where
  "and_then r f = (case r of Inl e \<Rightarrow> Inl e | Inr x \<Rightarrow> f x)"

text \<open>\<open>response.raise_for_status()\<close> raises for the status codes 400 to 599.\<close>

definition raise_for_status :: "'v response \<Rightarrow> exn + unit" where
  "raise_for_status r =
     (if 400 \<le> status_code r \<and> status_code r < 600
      then Inl (Raised (HTTPError (status_code r))) else Inr ())"

text \<open>Subscripts: \<open>d[key]\<close> on a dictionary and \<open>xs[i]\<close> on a list, for \<open>i\<close> from \<open>range\<close>.\<close>

definition getkey :: "(string \<rightharpoonup> 'a) \<Rightarrow> string \<Rightarrow> exn + 'a" where
  "getkey d key = (case d key of None \<Rightarrow> Inl (KeyError key) | Some x \<Rightarrow> Inr x)"

definition getitem :: "'a list \<Rightarrow> nat \<Rightarrow> exn + 'a" where
  "getitem xs i = (if i < length xs then Inr (xs ! i) else Inl IndexError)"

text \<open>One element of the list comprehension; the subscripts are evaluated left to right.\<close>

definition row_at :: "string \<Rightarrow> 'v list \<Rightarrow> 'v series \<Rightarrow> nat \<Rightarrow> exn + 'v observation" where
  "row_at c dates daily_data i =
     and_then (getitem dates i) (\<lambda>d.
     and_then (and_then (getkey daily_data ''temperature_2m_mean'') (\<lambda>xs. getitem xs i)) (\<lambda>t.
     and_then (and_then (getkey daily_data ''precipitation_sum'') (\<lambda>xs. getitem xs i)) (\<lambda>p.
     and_then (and_then (getkey daily_data ''wind_speed_10m_max'') (\<lambda>xs. getitem xs i)) (\<lambda>w.
       Inr \<lparr>city = c, date = d, temperature_2m_mean = t,
            precipitation_sum = p, wind_speed_10m_max = w\<rparr>))))"

fun collect :: "(exn + 'a) list \<Rightarrow> exn + 'a list" where
  "collect [] = Inr []"
| "collect (r # rs) =
     (case r of
        Inl e \<Rightarrow> Inl e
      | Inr x \<Rightarrow> (case collect rs of Inl e \<Rightarrow> Inl e | Inr xs \<Rightarrow> Inr (x # xs)))"

definition extract_rows :: "string \<Rightarrow> 'v payload \<Rightarrow> exn + 'v observation list" where
  "extract_rows c data =
     and_then (getkey data ''daily'') (\<lambda>daily_data.
     and_then (getkey daily_data ''date'') (\<lambda>dates.
       collect (map (row_at c dates daily_data) [0..<length dates])))"

text \<open>The body of the \<open>try\<close>, given what the transport does on this call.\<close>

definition attempt ::
  "string \<Rightarrow> lib_exn + 'v response \<Rightarrow> exn + 'v observation list" where
  "attempt c outcome =
     (case outcome of
        Inl e \<Rightarrow> Inl (Raised e)
      | Inr r \<Rightarrow>
          and_then (raise_for_status r) (\<lambda>_.
            (case json r of
               Inl e \<Rightarrow> Inl (Raised e)
             | Inr data \<Rightarrow> and_then (validate_response data) (\<lambda>_. extract_rows c data))))"

text \<open>
  The \<open>while retries < MAX_RETRIES\<close> loop. The handlers are tried in the order of the
  source: the clause for \<open>RequestException\<close> comes first, the clause for \<open>HTTPError\<close>
  second, and an exception that matches neither leaves the function.
\<close>

function fetch_loop ::
  "'v transport \<Rightarrow> string \<Rightarrow> request \<Rightarrow> nat \<Rightarrow> trace \<Rightarrow> (exn + 'v observation list) \<times> trace" where
  "fetch_loop T c params retries tr =
     (if retries < MAX_RETRIES then
        (case attempt c (T (n_calls tr) params) of
           Inr rows \<Rightarrow> (Inr rows, tr @ [Get API_URL params])
         | Inl e \<Rightarrow>
             if is_RequestException e then
               fetch_loop T c params (retries + 1)
                 (tr @ [Get API_URL params,
                        Log WARNING (RequestFailed e (retries + 1) MAX_RETRIES), Sleep 5])
             else if is_HTTPError e then
               (if http_status e = 404 then (Inl e, tr @ [Get API_URL params])
                else fetch_loop T c params (retries + 1)
                       (tr @ [Get API_URL params,
                              Log ERROR (HttpFailed e (http_status e)), Sleep 5]))
             else (Inl e, tr @ [Get API_URL params]))
      else (Inl (RuntimeError (MaxRetriesExceeded MAX_RETRIES)), tr))"
  by pat_completeness auto
termination
  by (relation "measure (\<lambda>(T, c, params, retries, tr). MAX_RETRIES - retries)") auto

definition request_params :: "rat \<Rightarrow> rat \<Rightarrow> date \<Rightarrow> date \<Rightarrow> request" where
  "request_params lat lon start end_d =
     \<lparr>latitude = lat, longitude = lon, start_date = start, end_date = end_d,
      daily = join '','' VARIABLES, timezone = ''auto''\<rparr>"

definition fetch_data_interval ::
  "'v transport \<Rightarrow> string \<Rightarrow> rat \<Rightarrow> rat \<Rightarrow> date \<Rightarrow> date \<Rightarrow> trace
     \<Rightarrow> (exn + 'v observation list) \<times> trace" where
  "fetch_data_interval T c lat lon start end_d tr =
     fetch_loop T c (request_params lat lon start end_d) 0 tr"

section \<open>get_meteo_data\<close>

text \<open>
  The variant of the loop over the months: the month index, with the month clamped to 12
  so that it also grows on triples that are not dates.
\<close>

definition variant :: "date \<Rightarrow> nat" where
  "variant d = 12 * year d + min (month d) 12"

text \<open>\<open>(current_date + timedelta(days=32)).replace(day=1)\<close>.\<close>

definition next_month_start :: "date \<Rightarrow> exn + date" where
  "next_month_start d =
     (case add_days 32 d of Inl e \<Rightarrow> Inl e | Inr later \<Rightarrow> Inr (replace_day1 later))"

lemma days_in_month_le: "days_in_month y m \<le> 31"
  by (simp add: days_in_month_def)

lemma days_in_month_ge: "28 \<le> days_in_month y m"
  by (simp add: days_in_month_def)

lemma variant_tomorrow: "tomorrow d = Inr r \<Longrightarrow> variant d \<le> variant r"
  by (auto simp: variant_def tomorrow_def split: if_splits)

lemma variant_add_days: "add_days n d = Inr r \<Longrightarrow> variant d \<le> variant r"
proof (induction n arbitrary: d)
  case 0
  then show ?case by simp
next
  case (Suc n)
  then obtain d' where t: "tomorrow d = Inr d'" and a: "add_days n d' = Inr r"
    by (auto split: sum.splits)
  have "variant d \<le> variant d'" using t by (rule variant_tomorrow)
  also have "\<dots> \<le> variant r" using a by (rule Suc.IH)
  finally show ?case .
qed

lemma add_days_stays_or_advances:
  "add_days n d = Inr r \<Longrightarrow>
   variant d < variant r \<or>
   (r = Date (year d) (month d) (day d + n) \<and>
    (0 < n \<longrightarrow> day d + n \<le> days_in_month (year d) (month d)))"
proof (induction n arbitrary: d)
  case 0
  then show ?case by simp
next
  case (Suc n)
  then obtain d' where t: "tomorrow d = Inr d'" and a: "add_days n d' = Inr r"
    by (auto split: sum.splits)
  show ?case
  proof (cases "day d < days_in_month (year d) (month d)")
    case True
    with t have d': "d' = Date (year d) (month d) (day d + 1)"
      by (simp add: tomorrow_def)
    have v: "variant d' = variant d"
      by (simp add: d' variant_def)
    from Suc.IH [OF a] show ?thesis
    proof
      assume "variant d' < variant r"
      then show ?thesis by (simp add: v)
    next
      assume "r = Date (year d') (month d') (day d' + n) \<and>
          (0 < n \<longrightarrow> day d' + n \<le> days_in_month (year d') (month d'))"
      then show ?thesis using True by (cases "n = 0") (simp_all add: d')
    qed
  next
    case False
    with t have "variant d < variant d'"
      by (auto simp: tomorrow_def variant_def split: if_splits)
    also have "\<dots> \<le> variant r" using a by (rule variant_add_days)
    finally show ?thesis by simp
  qed
qed

lemma variant_next_month_start:
  assumes "next_month_start d = Inr r"
  shows "variant d < variant r"
proof -
  from assms obtain later where l: "add_days 32 d = Inr later" and r: "r = replace_day1 later"
    by (auto simp: next_month_start_def split: sum.splits)
  have "\<not> day d + 32 \<le> days_in_month (year d) (month d)"
    using days_in_month_le [of "year d" "month d"] by simp
  with add_days_stays_or_advances [OF l] have "variant d < variant later"
    by auto
  then show ?thesis by (simp add: r replace_day1_def variant_def)
qed

lemma date_le_variant: "date_le a b \<Longrightarrow> variant a \<le> variant b"
  by (auto simp: date_le_def date_less_def variant_def)

text \<open>
  The \<open>while current_date <= end_date_dt\<close> loop. The addition of 32 days stands before
  the \<open>try\<close>: when it raises, the exception leaves the function at once. The \<open>finally\<close>
  clause runs on every path through the \<open>try\<close>: after a successful fetch, after a caught
  \<open>RuntimeError\<close>, and before an exception of another class leaves the function.
\<close>

function meteo_loop ::
  "'v transport \<Rightarrow> string \<Rightarrow> rat \<Rightarrow> rat \<Rightarrow> date \<Rightarrow> date \<Rightarrow> 'v observation list \<Rightarrow> trace
     \<Rightarrow> (exn + 'v observation list) \<times> trace" where
  "meteo_loop T c lat lon current_date end_date_dt all_data tr =
     (if date_le current_date end_date_dt then
        (case next_month_start current_date of
           Inl e \<Rightarrow> (Inl e, tr)
         | Inr next_date \<Rightarrow>
             (let interval_end_date = date_min (yesterday next_date) end_date_dt;
                  tr1 = tr @ [Log INFO (FetchingInterval c current_date interval_end_date)]
              in case fetch_data_interval T c lat lon current_date interval_end_date tr1 of
                   (Inr interval_data, tr2) \<Rightarrow>
                     meteo_loop T c lat lon next_date end_date_dt (all_data @ interval_data)
                       (tr2 @ [Sleep 1])
                 | (Inl e, tr2) \<Rightarrow>
                     if is_RuntimeError e then
                       meteo_loop T c lat lon next_date end_date_dt all_data
                         (tr2 @ [Log ERROR (ErrorMessage e), Sleep 1])
                     else (Inl e, tr2 @ [Sleep 1])))
      else (Inr all_data, tr))"
  by pat_completeness auto
termination
proof (relation "measure (\<lambda>(T, c, lat, lon, cur, end_d, all_data, tr).
                   Suc (variant end_d) - variant cur)")
  show "wf (measure (\<lambda>(T :: 'v transport, c, lat, lon, cur, end_d,
                        all_data :: 'v observation list, tr).
                   Suc (variant end_d) - variant cur))"
    by simp
qed (use variant_next_month_start date_le_variant in
      \<open>auto simp: less_Suc_eq_le intro!: diff_less_mono2\<close>)

definition get_meteo_data ::
  "'v transport \<Rightarrow> string \<Rightarrow> date \<Rightarrow> date \<Rightarrow> string \<Rightarrow> trace
     \<Rightarrow> (exn + 'v observation list) \<times> trace" where
  "get_meteo_data T c start end_d interval tr =
     (case COORDINATES c of
        None \<Rightarrow> (Inl (ValueError (UnsupportedCity c)), tr)
      | Some coords \<Rightarrow>
          if interval \<noteq> ''month'' then (Inl (ValueError IntervalMustBeMonth), tr)
          else meteo_loop T c (latitude coords) (longitude coords) start end_d [] tr)"

text \<open>
  The dates of the loop without its effects: the sub-ranges that the iterations go through
  when no exception leaves the loop.
\<close>

function sub_ranges :: "date \<Rightarrow> date \<Rightarrow> (date \<times> date) list" where
  "sub_ranges current_date end_date_dt =
     (if date_le current_date end_date_dt then
        (case next_month_start current_date of
           Inl e \<Rightarrow> []
         | Inr next_date \<Rightarrow>
             (current_date, date_min (yesterday next_date) end_date_dt) #
               sub_ranges next_date end_date_dt)
      else [])"
  by pat_completeness auto
termination
  by (relation "measure (\<lambda>(cur, end_d). Suc (variant end_d) - variant cur)")
     (use variant_next_month_start date_le_variant in
        \<open>auto simp: less_Suc_eq_le intro!: diff_less_mono2\<close>)

section \<open>main and the module's entry point\<close>

text \<open>
  What \<open>main\<close> does besides fetching goes through the file system, pandas and matplotlib.
  These calls are parameters of the model: each one returns or raises.
\<close>

record ('v, 's) env =
  mkdir :: "lib_exn + unit"
  is_file :: bool
  read_csv :: "lib_exn + 'v observation list"
  to_csv :: "'v observation list \<Rightarrow> lib_exn + unit"
  calculate_values :: "'v observation list \<Rightarrow> lib_exn + 's"
  plot_city_yearly_statistics :: "'s \<Rightarrow> lib_exn + unit"

definition lift_lib :: "lib_exn + 'a \<Rightarrow> exn + 'a" where
  "lift_lib r = (case r of Inl e \<Rightarrow> Inl (Raised e) | Inr x \<Rightarrow> Inr x)"

fun fetch_cities ::
  "'v transport \<Rightarrow> string list \<Rightarrow> date \<Rightarrow> date \<Rightarrow> 'v observation list list \<Rightarrow> trace
     \<Rightarrow> (exn + 'v observation list list) \<times> trace" where
  "fetch_cities T [] start end_d all_data tr = (Inr all_data, tr)"
| "fetch_cities T (c # cities) start end_d all_data tr =
     (case get_meteo_data T c start end_d ''month'' (tr @ [Log INFO (FetchingCity c)]) of
        (Inl e, tr1) \<Rightarrow> (Inl e, tr1)
      | (Inr city_data, tr1) \<Rightarrow> fetch_cities T cities start end_d (all_data @ [city_data]) tr1)"

definition load_or_fetch ::
  "('v, 's) env \<Rightarrow> 'v transport \<Rightarrow> trace \<Rightarrow> (exn + 'v observation list) \<times> trace" where
  "load_or_fetch env T tr =
     (if is_file env then (lift_lib (read_csv env), tr @ [Log INFO LoadingData])
      else
        (case fetch_cities T [''Madrid'', ''London'', ''Rio de Janeiro'']
                (Date 2010 1 1) (Date 2020 12 31) [] tr of
           (Inl e, tr1) \<Rightarrow> (Inl e, tr1)
         | (Inr all_data, tr1) \<Rightarrow>
             (case to_csv env (concat all_data) of
                Inl e \<Rightarrow> (Inl (Raised e), tr1)
              | Inr _ \<Rightarrow> (Inr (concat all_data), tr1 @ [Log INFO DataSaved]))))"

definition main :: "('v, 's) env \<Rightarrow> 'v transport \<Rightarrow> trace \<Rightarrow> (exn + unit) \<times> trace" where
  "main env T tr =
     (case mkdir env of
        Inl e \<Rightarrow> (Inl (Raised e), tr)
      | Inr _ \<Rightarrow>
          (case load_or_fetch env T tr of
             (Inl e, tr1) \<Rightarrow> (Inl e, tr1)
           | (Inr combined_data, tr1) \<Rightarrow>
               (and_then (lift_lib (calculate_values env combined_data)) (\<lambda>calculate_vls.
                  lift_lib (plot_city_yearly_statistics env calculate_vls)), tr1)))"

text \<open>
  The block under \<open>if __name__ == "__main__"\<close>: an exception of class \<open>Exception\<close> is
  logged and the interpreter ends normally; any other one leaves the module uncaught.
\<close>

datatype exit = ExitedNormally | UncaughtException exn

definition run_module :: "('v, 's) env \<Rightarrow> 'v transport \<Rightarrow> trace \<Rightarrow> exit \<times> trace" where
  "run_module env T tr =
     (case main env T tr of
        (Inr _, tr1) \<Rightarrow> (ExitedNormally, tr1)
      | (Inl e, tr1) \<Rightarrow>
          if is_Exception e then (ExitedNormally, tr1 @ [Log ERROR (UnexpectedError e)])
          else (UncaughtException e, tr1))"

section \<open>Observing a trace\<close>

text \<open>The sub-ranges announced by the loop of \<open>get_meteo_data\<close>, one per iteration.\<close>

fun logged_intervals :: "trace \<Rightarrow> (date \<times> date) list" where
  "logged_intervals [] = []"
| "logged_intervals (Log _ (FetchingInterval _ s e) # tr) = (s, e) # logged_intervals tr"
| "logged_intervals (_ # tr) = logged_intervals tr"

text \<open>
  A list of sub-ranges covers the days from \<open>s\<close> to \<open>e\<close>: the first one starts at \<open>s\<close>, each
  one starts on the day after the end of the one before, none is empty, and the last one
  ends at \<open>e\<close>.
\<close>

fun covers :: "date \<Rightarrow> date \<Rightarrow> (date \<times> date) list \<Rightarrow> bool" where
  "covers s e [] = False"
| "covers s e [(a, b)] = (a = s \<and> b = e \<and> date_le a b)"
| "covers s e ((a, b) # (a', b') # rest) =
     (a = s \<and> date_le a b \<and> tomorrow b = Inr a' \<and> covers a' e ((a', b') # rest))"

fun is_ValueError :: "exn \<Rightarrow> bool" where
  "is_ValueError (ValueError _) = True"
| "is_ValueError _ = False"

text \<open>The exceptions that can come out of \<open>fetch_data_interval\<close>.\<close>

fun is_fetcher_error :: "exn \<Rightarrow> bool" where
  "is_fetcher_error (ValueError _) = False"
| "is_fetcher_error OverflowError = False"
| "is_fetcher_error _ = True"

section \<open>Transports and payloads used as examples\<close>

text \<open>The payload of the repository's tests, its cells written as JSON text.\<close>

definition MOCK_RESPONSE :: "string payload" where
  "MOCK_RESPONSE =
     [''daily'' \<mapsto>
        [''date'' \<mapsto> [''2020-01-01'', ''2020-01-02'', ''2020-01-03''],
         ''temperature_2m_mean'' \<mapsto> [''5.0'', ''6.0'', ''7.0''],
         ''precipitation_sum'' \<mapsto> [''0.0'', ''1.2'', ''0.8''],
         ''wind_speed_10m_max'' \<mapsto> [''15.0'', ''20.0'', ''18.0'']]]"

definition mock_transport :: "string transport" where
  "mock_transport = (\<lambda>k p. Inr \<lparr>status_code = 200, json = Inr MOCK_RESPONSE\<rparr>)"

text \<open>A response with status 200 whose payload is the empty object.\<close>

definition malformed_transport :: "string transport" where
  "malformed_transport = (\<lambda>k p. Inr \<lparr>status_code = 200, json = Inr Map.empty\<rparr>)"

text \<open>A transport that raises a timeout on every call.\<close>

definition timeout_transport :: "string transport" where
  "timeout_transport = (\<lambda>k p. Inl (RequestException ''timeout''))"

text \<open>A transport that answers every call with status 404.\<close>

definition not_found_transport :: "string transport" where
  "not_found_transport = (\<lambda>k p. Inr \<lparr>status_code = 404, json = Inr Map.empty\<rparr>)"

text \<open>A valid payload whose series are all empty.\<close>

definition empty_series_transport :: "string transport" where
  "empty_series_transport = (\<lambda>k p. Inr \<lparr>status_code = 200, json = Inr
     [''daily'' \<mapsto> [''date'' \<mapsto> [], ''temperature_2m_mean'' \<mapsto> [],
                     ''precipitation_sum'' \<mapsto> [], ''wind_speed_10m_max'' \<mapsto> []]]\<rparr>)"

text \<open>A payload that passes validation and has no \<open>date\<close> series.\<close>

definition no_date_transport :: "string transport" where
  "no_date_transport = (\<lambda>k p. Inr \<lparr>status_code = 200, json = Inr
     [''daily'' \<mapsto> [''temperature_2m_mean'' \<mapsto> [],
                     ''precipitation_sum'' \<mapsto> [], ''wind_speed_10m_max'' \<mapsto> []]]\<rparr>)"

text \<open>An environment in which the cached file exists and cannot be read.\<close>

definition broken_disk_env :: "(string, unit) env" where
  "broken_disk_env =
     \<lparr>mkdir = Inr (), is_file = True, read_csv = Inl (OtherException ''ParserError''),
      to_csv = (\<lambda>d. Inr ()), calculate_values = (\<lambda>d. Inr ()),
      plot_city_yearly_statistics = (\<lambda>s. Inr ())\<rparr>"

section \<open>Evaluation on concrete inputs\<close>

declare fetch_loop.simps [simp del]
declare meteo_loop.simps [simp del]
declare sub_ranges.simps [simp del]

lemma add_days_numeral:
  "add_days (numeral k) d =
     (case tomorrow d of Inl e \<Rightarrow> Inl e | Inr d' \<Rightarrow> add_days (pred_numeral k) d')"
  by (simp add: numeral_eq_Suc)

lemmas calendar_eval = next_month_start_def tomorrow_def yesterday_def days_in_month_def leap_def
  replace_day1_def date_le_def date_less_def date_min_def Let_def add_days_numeral MAXYEAR_def

lemmas fetch_eval = fetch_data_interval_def fetch_loop.simps attempt_def and_then_def
  raise_for_status_def validate_response_def VARIABLES_def extract_rows_def getkey_def
  getitem_def row_at_def MAX_RETRIES_def n_calls_def

lemmas meteo_eval = get_meteo_data_def COORDINATES_def meteo_loop.simps calendar_eval fetch_eval

section \<open>validate_response\<close>





section \<open>fetch_data_interval: one attempt\<close>

lemma check_keys_error: "check_keys ks dd = Inl e \<Longrightarrow> is_RuntimeError e"
  by (induction ks) (auto split: if_splits)

lemma validate_response_error: "validate_response data = Inl e \<Longrightarrow> is_RuntimeError e"
  by (auto simp: validate_response_def split: option.splits dest: check_keys_error)

lemma RuntimeError_not_request: "is_RuntimeError e \<Longrightarrow> \<not> is_RequestException e \<and> \<not> is_HTTPError e"
  by (cases e) simp_all

lemma raise_for_status_ok:
  "200 \<le> status_code r \<Longrightarrow> status_code r < 300 \<Longrightarrow> raise_for_status r = Inr ()"
  by (simp add: raise_for_status_def)


lemma fetch_loop_escape:
  "attempt c (T (n_calls tr) params) = Inl e \<Longrightarrow> \<not> is_RequestException e \<Longrightarrow>
   \<not> is_HTTPError e \<Longrightarrow> retries < MAX_RETRIES \<Longrightarrow>
   fetch_loop T c params retries tr = (Inl e, tr @ [Get API_URL params])"
  by (subst fetch_loop.simps) simp


text \<open>
  Claim C7. When the transport answers the first call with a 2xx response whose payload
  fails \<open>validate_response\<close>, \<open>fetch_data_interval\<close> raises the validation error, a
  \<open>RuntimeError\<close>, on that attempt: the trace grows by the one call of the transport, with
  no sleep and no retry.
\<close>

theorem malformed_payload_not_retried:
  assumes "T (n_calls tr) (request_params lat lon start end_d) = Inr r"
    and "200 \<le> status_code r" and "status_code r < 300"
    and "json r = Inr data"
    and "validate_response data = Inl e"
  shows "fetch_data_interval T c lat lon start end_d tr =
           (Inl e, tr @ [Get API_URL (request_params lat lon start end_d)]) \<and>
         is_RuntimeError e"
proof -
  have rt: "is_RuntimeError e" using assms(5) by (rule validate_response_error)
  have "attempt c (T (n_calls tr) (request_params lat lon start end_d)) = Inl e"
    using assms by (simp add: attempt_def raise_for_status_ok and_then_def)
  moreover have "\<not> is_RequestException e" "\<not> is_HTTPError e"
    using rt RuntimeError_not_request by blast+
  ultimately have "fetch_loop T c (request_params lat lon start end_d) 0 tr =
      (Inl e, tr @ [Get API_URL (request_params lat lon start end_d)])"
    by (rule fetch_loop_escape) (simp add: MAX_RETRIES_def)
  with rt show ?thesis by (simp add: fetch_data_interval_def)
qed

theorem malformed_payload_not_retried_witness:
  "fetch_data_interval malformed_transport ''Madrid'' 40.4168 (- 3.7038)
       (Date 2020 1 1) (Date 2020 1 3) [] =
     (Inl (RuntimeError MissingDaily),
      [Get API_URL (request_params 40.4168 (- 3.7038) (Date 2020 1 1) (Date 2020 1 3))])"
  using malformed_payload_not_retried
    [of malformed_transport "[]" "40.4168" "- 3.7038" "Date 2020 1 1" "Date 2020 1 3"
        "\<lparr>status_code = 200, json = Inr Map.empty\<rparr>" Map.empty "RuntimeError MissingDaily"
        "''Madrid''"]
  by (simp add: malformed_transport_def validate_response_def)



section \<open>fetch_data_interval: the retry loop\<close>

lemma n_calls_append: "n_calls (tr @ tr') = n_calls tr + n_calls tr'"
  by (simp add: n_calls_def)

text \<open>The events of one failed attempt that is retried by the first handler.\<close>

definition retried_attempt :: "'v transport \<Rightarrow> string \<Rightarrow> request \<Rightarrow> nat \<Rightarrow> nat \<Rightarrow> nat \<Rightarrow> trace" where
  "retried_attempt T c params calls retries i =
     [Get API_URL params,
      Log WARNING (RequestFailed (projl (attempt c (T (calls + i) params))) (retries + i + 1) MAX_RETRIES),
      Sleep 5]"

lemma fetch_loop_all_retried:
  assumes "\<And>k. \<exists>e. attempt c (T k params) = Inl e \<and> is_RequestException e"
  shows "fetch_loop T c params retries tr =
           (Inl (RuntimeError (MaxRetriesExceeded MAX_RETRIES)),
            tr @ concat (map (retried_attempt T c params (n_calls tr) retries) [0..<MAX_RETRIES - retries]))"
proof (induction "MAX_RETRIES - retries" arbitrary: retries tr)
  case 0
  then show ?case by (subst fetch_loop.simps) simp
next
  case (Suc n)
  then have lt: "retries < MAX_RETRIES" and n: "n = MAX_RETRIES - Suc retries" by simp_all
  from assms obtain e where e: "attempt c (T (n_calls tr) params) = Inl e" "is_RequestException e"
    by blast
  let ?tr1 = "tr @ [Get API_URL params, Log WARNING (RequestFailed e (Suc retries) MAX_RETRIES), Sleep 5]"
  have calls: "n_calls ?tr1 = n_calls tr + 1" by (simp add: n_calls_def)
  have step: "fetch_loop T c params retries tr = fetch_loop T c params (Suc retries) ?tr1"
    using lt e by (subst fetch_loop.simps) simp
  have first: "retried_attempt T c params (n_calls tr) retries 0 =
      [Get API_URL params, Log WARNING (RequestFailed e (Suc retries) MAX_RETRIES), Sleep 5]"
    using e by (simp add: retried_attempt_def)
  have shift: "retried_attempt T c params (n_calls ?tr1) (Suc retries) =
      (\<lambda>i. retried_attempt T c params (n_calls tr) retries (Suc i))"
    unfolding retried_attempt_def calls by (rule ext) simp
  have "[0..<MAX_RETRIES - retries] = 0 # map Suc [0..<MAX_RETRIES - Suc retries]"
    using lt by (metis Suc.hyps(2) n map_Suc_upt upt_conv_Cons zero_less_Suc)
  then have "concat (map (retried_attempt T c params (n_calls tr) retries) [0..<MAX_RETRIES - retries]) =
      retried_attempt T c params (n_calls tr) retries 0 @
      concat (map (retried_attempt T c params (n_calls ?tr1) (Suc retries)) [0..<MAX_RETRIES - Suc retries])"
    unfolding shift by (simp add: comp_def)
  moreover have "fetch_loop T c params (Suc retries) ?tr1 =
      (Inl (RuntimeError (MaxRetriesExceeded MAX_RETRIES)),
       ?tr1 @ concat (map (retried_attempt T c params (n_calls ?tr1) (Suc retries)) [0..<MAX_RETRIES - Suc retries]))"
    using Suc.hyps(1) [of "Suc retries" ?tr1] n by simp
  ultimately show ?case unfolding step first by simp
qed

text \<open>
  Claim C3. When every call of the transport raises a \<open>RequestException\<close>,
  \<open>fetch_data_interval\<close> calls the transport 5 times, logs a warning and sleeps 5 time units
  after each of the 5 failures, and then raises the \<open>RuntimeError\<close> that reports that the
  5 attempts are used up.
\<close>

theorem transient_failure_five_attempts:
  assumes "\<And>k. \<exists>e. T k (request_params lat lon start end_d) = Inl e \<and> is_RequestException (Raised e)"
  shows "fetch_data_interval T c lat lon start end_d tr =
           (Inl (RuntimeError (MaxRetriesExceeded 5)),
            tr @ concat (map (\<lambda>i. [Get API_URL (request_params lat lon start end_d),
                                    Log WARNING (RequestFailed (Raised (projl (T (n_calls tr + i) (request_params lat lon start end_d)))) (i + 1) 5),
                                    Sleep 5]) [0..<5]))"
proof -
  let ?p = "request_params lat lon start end_d"
  have a: "attempt c (T k ?p) = Inl (Raised (projl (T k ?p))) \<and> is_RequestException (Raised (projl (T k ?p)))" for k
    using assms [of k] by (auto simp: attempt_def)
  then have "\<And>k. \<exists>e. attempt c (T k ?p) = Inl e \<and> is_RequestException e" by blast
  then have "fetch_loop T c ?p 0 tr =
           (Inl (RuntimeError (MaxRetriesExceeded MAX_RETRIES)),
            tr @ concat (map (retried_attempt T c ?p (n_calls tr) 0) [0..<MAX_RETRIES - 0]))"
    by (rule fetch_loop_all_retried)
  moreover have "retried_attempt T c ?p (n_calls tr) 0 =
     (\<lambda>i. [Get API_URL ?p, Log WARNING (RequestFailed (Raised (projl (T (n_calls tr + i) ?p))) (i + 1) 5), Sleep 5])"
    by (rule ext) (simp add: retried_attempt_def a MAX_RETRIES_def)
  ultimately show ?thesis by (simp add: fetch_data_interval_def MAX_RETRIES_def)
qed

theorem transient_failure_five_attempts_witness:
  "fst (fetch_data_interval timeout_transport ''Madrid'' 40.4168 (- 3.7038)
          (Date 2020 1 1) (Date 2020 1 3) []) = Inl (RuntimeError (MaxRetriesExceeded 5)) \<and>
   n_calls (snd (fetch_data_interval timeout_transport ''Madrid'' 40.4168 (- 3.7038)
          (Date 2020 1 1) (Date 2020 1 3) [])) = 5 \<and>
   filter is_Sleep (snd (fetch_data_interval timeout_transport ''Madrid'' 40.4168 (- 3.7038)
          (Date 2020 1 1) (Date 2020 1 3) [])) =
     [Sleep 5, Sleep 5, Sleep 5, Sleep 5, Sleep 5]"
  using transient_failure_five_attempts
    [of timeout_transport "40.4168" "- 3.7038" "Date 2020 1 1" "Date 2020 1 3" "''Madrid''" "[]"]
  by (simp add: timeout_transport_def n_calls_def upt_rec)

text \<open>
  Claim C1 fails on the code. A response with status 404 makes \<open>raise_for_status\<close> raise an
  \<open>HTTPError\<close>, which is a \<open>RequestException\<close>: the first handler takes it and retries, and
  the handler that re-raises on 404 is never reached. With a transport that always answers
  404, the transport is called 5 times, 5 sleeps of 5 time units are taken, and the error
  raised is the \<open>RuntimeError\<close> of the used-up retries.
\<close>

theorem not_found_is_retried:
  "fst (fetch_data_interval not_found_transport ''Madrid'' 40.4168 (- 3.7038)
          (Date 2020 1 1) (Date 2020 1 3) []) = Inl (RuntimeError (MaxRetriesExceeded 5)) \<and>
   n_calls (snd (fetch_data_interval not_found_transport ''Madrid'' 40.4168 (- 3.7038)
          (Date 2020 1 1) (Date 2020 1 3) [])) = 5 \<and>
   filter is_Sleep (snd (fetch_data_interval not_found_transport ''Madrid'' 40.4168 (- 3.7038)
          (Date 2020 1 1) (Date 2020 1 3) [])) =
     [Sleep 5, Sleep 5, Sleep 5, Sleep 5, Sleep 5]"
  by (simp add: fetch_eval not_found_transport_def)

section \<open>get_meteo_data: one iteration\<close>

lemma meteo_loop_done:
  "\<not> date_le cur end_d \<Longrightarrow> meteo_loop T c lat lon cur end_d acc tr = (Inr acc, tr)"
  by (subst meteo_loop.simps) simp

lemma meteo_loop_overflow:
  "date_le cur end_d \<Longrightarrow> next_month_start cur = Inl e \<Longrightarrow>
   meteo_loop T c lat lon cur end_d acc tr = (Inl e, tr)"
  by (subst meteo_loop.simps) simp

lemma meteo_loop_fetched:
  "date_le cur end_d \<Longrightarrow> next_month_start cur = Inr nd \<Longrightarrow>
   fetch_data_interval T c lat lon cur (date_min (yesterday nd) end_d)
     (tr @ [Log INFO (FetchingInterval c cur (date_min (yesterday nd) end_d))]) =
     (Inr rows, tr2) \<Longrightarrow>
   meteo_loop T c lat lon cur end_d acc tr =
     meteo_loop T c lat lon nd end_d (acc @ rows) (tr2 @ [Sleep 1])"
  by (subst meteo_loop.simps) (simp add: Let_def)

lemma meteo_loop_skipped:
  "date_le cur end_d \<Longrightarrow> next_month_start cur = Inr nd \<Longrightarrow>
   fetch_data_interval T c lat lon cur (date_min (yesterday nd) end_d)
     (tr @ [Log INFO (FetchingInterval c cur (date_min (yesterday nd) end_d))]) =
     (Inl e, tr2) \<Longrightarrow>
   is_RuntimeError e \<Longrightarrow>
   meteo_loop T c lat lon cur end_d acc tr =
     meteo_loop T c lat lon nd end_d acc (tr2 @ [Log ERROR (ErrorMessage e), Sleep 1])"
  by (subst meteo_loop.simps) (simp add: Let_def)

lemma meteo_loop_escaped:
  "date_le cur end_d \<Longrightarrow> next_month_start cur = Inr nd \<Longrightarrow>
   fetch_data_interval T c lat lon cur (date_min (yesterday nd) end_d)
     (tr @ [Log INFO (FetchingInterval c cur (date_min (yesterday nd) end_d))]) =
     (Inl e, tr2) \<Longrightarrow>
   \<not> is_RuntimeError e \<Longrightarrow>
   meteo_loop T c lat lon cur end_d acc tr = (Inl e, tr2 @ [Sleep 1])"
  by (subst meteo_loop.simps) (simp add: Let_def)

section \<open>get_meteo_data: the two guards\<close>

lemma collect_error: "collect rs = Inl e \<Longrightarrow> Inl e \<in> set rs"
  by (induction rs) (auto split: sum.splits)

lemma row_at_error: "row_at c dates dd i = Inl e \<Longrightarrow> is_fetcher_error e"
  by (auto simp: row_at_def and_then_def getitem_def getkey_def
           split: sum.splits if_splits option.splits)

lemma extract_rows_error: "extract_rows c data = Inl e \<Longrightarrow> is_fetcher_error e"
  by (auto simp: extract_rows_def and_then_def getkey_def
           split: sum.splits option.splits dest!: collect_error dest: row_at_error [OF sym])

lemma RuntimeError_fetcher_error: "is_RuntimeError e \<Longrightarrow> is_fetcher_error e"
  by (cases e) simp_all

lemma attempt_error: "attempt c outcome = Inl e \<Longrightarrow> is_fetcher_error e"
  by (auto simp: attempt_def and_then_def raise_for_status_def
           split: sum.splits if_splits
           dest: extract_rows_error RuntimeError_fetcher_error [OF validate_response_error])

lemma fetch_loop_error:
  "fst (fetch_loop T c params retries tr) = Inl e \<Longrightarrow> is_fetcher_error e"
proof (induction T c params retries tr rule: fetch_loop.induct)
  case (1 T c params retries tr)
  show ?case
  proof (cases "retries < MAX_RETRIES")
    case False
    with "1.prems" show ?thesis by (subst (asm) fetch_loop.simps) auto
  next
    case True
    show ?thesis
    proof (cases "attempt c (T (n_calls tr) params)")
      case (Inr rows)
      with True "1.prems" show ?thesis by (subst (asm) fetch_loop.simps) simp
    next
      case (Inl e')
      with True "1.prems" "1.IH" attempt_error [OF Inl] show ?thesis
        by (subst (asm) fetch_loop.simps) (auto split: if_splits)
    qed
  qed
qed

lemma fetch_data_interval_error:
  "fetch_data_interval T c lat lon start end_d tr = (Inl e, tr') \<Longrightarrow> is_fetcher_error e"
  using fetch_loop_error [of T c "request_params lat lon start end_d" 0 tr e]
  by (simp add: fetch_data_interval_def)

lemma fetcher_error_not_ValueError: "is_fetcher_error e \<Longrightarrow> \<not> is_ValueError e"
  by (cases e) simp_all

lemma next_month_start_error: "next_month_start d = Inl e \<Longrightarrow> e = OverflowError"
proof -
  have t: "tomorrow d = Inl e \<Longrightarrow> e = OverflowError" for d
    by (auto simp: tomorrow_def split: if_splits)
  have a: "add_days n d = Inl e \<Longrightarrow> e = OverflowError" for n d
    by (induction n arbitrary: d) (auto split: sum.splits dest: t)
  assume "next_month_start d = Inl e"
  then show ?thesis
    by (auto simp: next_month_start_def split: sum.splits dest: a)
qed

lemma meteo_loop_error:
  "fst (meteo_loop T c lat lon cur end_d acc tr) = Inl e \<Longrightarrow> \<not> is_ValueError e"
proof (induction T c lat lon cur end_d acc tr rule: meteo_loop.induct)
  case (1 T c lat lon cur end_d acc tr)
  show ?case
  proof (cases "date_le cur end_d")
    case False
    with "1.prems" show ?thesis by (simp add: meteo_loop_done)
  next
    case True
    show ?thesis
    proof (cases "next_month_start cur")
      case (Inl e')
      with True "1.prems" have "e = e'" by (simp add: meteo_loop_overflow)
      with Inl show ?thesis by (auto dest: next_month_start_error)
    next
      case nx: (Inr nd)
      let ?ie = "date_min (yesterday nd) end_d"
      let ?tr1 = "tr @ [Log INFO (FetchingInterval c cur ?ie)]"
      obtain r tr2 where f: "fetch_data_interval T c lat lon cur ?ie ?tr1 = (r, tr2)"
        by (cases "fetch_data_interval T c lat lon cur ?ie ?tr1")
      show ?thesis
      proof (cases r)
        case (Inr rows)
        have "meteo_loop T c lat lon cur end_d acc tr =
            meteo_loop T c lat lon nd end_d (acc @ rows) (tr2 @ [Sleep 1])"
          using True nx f [unfolded Inr] by (rule meteo_loop_fetched)
        with "1.prems" "1.IH"(2) [OF True nx refl refl f [symmetric] Inr] show ?thesis
          by simp
      next
        case (Inl e')
        have fe: "\<not> is_ValueError e'"
          using f Inl fetch_data_interval_error fetcher_error_not_ValueError by blast
        show ?thesis
        proof (cases "is_RuntimeError e'")
          case rt: True
          have "meteo_loop T c lat lon cur end_d acc tr =
              meteo_loop T c lat lon nd end_d acc (tr2 @ [Log ERROR (ErrorMessage e'), Sleep 1])"
            using True nx f [unfolded Inl] rt by (rule meteo_loop_skipped)
          with "1.prems" "1.IH"(1) [OF True nx refl refl f [symmetric] Inl rt] show ?thesis
            by simp
        next
          case False
          have "meteo_loop T c lat lon cur end_d acc tr = (Inl e', tr2 @ [Sleep 1])"
            using True nx f [unfolded Inl] False by (rule meteo_loop_escaped)
          with "1.prems" fe show ?thesis by simp
        qed
      qed
    qed
  qed
qed

text \<open>
  Claim C9. For a city outside \<open>COORDINATES\<close>, and for an interval other than \<open>month\<close>,
  \<open>get_meteo_data\<close> raises a \<open>ValueError\<close> and leaves the trace as it was: no call of the
  transport and no sleep. For a city of the table and the interval \<open>month\<close> it raises no
  \<open>ValueError\<close>, whatever the transport does.
\<close>

theorem unsupported_city_or_interval_raises_first:
  "(c \<notin> dom COORDINATES \<or> interval \<noteq> ''month'' \<longrightarrow>
      (\<exists>m. get_meteo_data T c start end_d interval tr = (Inl (ValueError m), tr))) \<and>
   (c \<in> dom COORDINATES \<longrightarrow>
      (\<forall>m. fst (get_meteo_data T c start end_d ''month'' tr) \<noteq> Inl (ValueError m)))"
proof (intro conjI impI allI)
  assume "c \<notin> dom COORDINATES \<or> interval \<noteq> ''month''"
  then show "\<exists>m. get_meteo_data T c start end_d interval tr = (Inl (ValueError m), tr)"
    by (auto simp: get_meteo_data_def split: option.splits)
next
  fix m
  assume "c \<in> dom COORDINATES"
  then obtain coords where "COORDINATES c = Some coords" by blast
  then have "get_meteo_data T c start end_d ''month'' tr =
      meteo_loop T c (latitude coords) (longitude coords) start end_d [] tr"
    by (simp add: get_meteo_data_def)
  then show "fst (get_meteo_data T c start end_d ''month'' tr) \<noteq> Inl (ValueError m)"
    using meteo_loop_error
      [of T c "latitude coords" "longitude coords" start end_d "[]" tr "ValueError m"]
    by auto
qed

theorem unsupported_city_or_interval_raises_first_witness:
  "''Paris'' \<notin> dom COORDINATES \<and> ''Madrid'' \<in> dom COORDINATES \<and>
   (\<exists>m. get_meteo_data mock_transport ''Paris'' (Date 2020 1 1) (Date 2020 1 3) ''month'' [] =
          (Inl (ValueError m), [])) \<and>
   (\<exists>m. get_meteo_data mock_transport ''Madrid'' (Date 2020 1 1) (Date 2020 1 3) ''day'' [] =
          (Inl (ValueError m), [])) \<and>
   (\<forall>m. fst (get_meteo_data mock_transport ''Madrid'' (Date 2020 1 1) (Date 2020 1 3)
               ''month'' []) \<noteq> Inl (ValueError m))"
proof -
  have p: "''Paris'' \<notin> dom COORDINATES" and m: "''Madrid'' \<in> dom COORDINATES"
    by (simp_all add: COORDINATES_def)
  show ?thesis
    using p m
      unsupported_city_or_interval_raises_first
        [of "''Paris''" "''month''" mock_transport "Date 2020 1 1" "Date 2020 1 3" "[]"]
      unsupported_city_or_interval_raises_first
        [of "''Madrid''" "''day''" mock_transport "Date 2020 1 1" "Date 2020 1 3" "[]"]
    by simp
qed

section \<open>get_meteo_data: the loop over the months\<close>

lemma one_le_days_in_month: "Suc 0 \<le> days_in_month y m"
  using days_in_month_ge [of y m] by simp

lemma valid_tomorrow: "tomorrow d = Inr r \<Longrightarrow> valid_date d \<Longrightarrow> valid_date r"
  by (auto simp: valid_date_def tomorrow_def one_le_days_in_month split: if_splits)

lemma valid_add_days: "add_days n d = Inr r \<Longrightarrow> valid_date d \<Longrightarrow> valid_date r"
proof (induction n arbitrary: d)
  case 0
  then show ?case by simp
next
  case (Suc n)
  then obtain d' where t: "tomorrow d = Inr d'" and a: "add_days n d' = Inr r"
    by (auto split: sum.splits)
  from t Suc.prems(2) have "valid_date d'" by (rule valid_tomorrow)
  with a show ?case by (rule Suc.IH)
qed

lemma valid_replace_day1: "valid_date d \<Longrightarrow> valid_date (replace_day1 d)"
  by (simp add: valid_date_def replace_day1_def one_le_days_in_month)

lemma valid_next_month_start:
  "next_month_start d = Inr r \<Longrightarrow> valid_date d \<Longrightarrow> valid_date r"
  by (auto simp: next_month_start_def split: sum.splits
           intro: valid_replace_day1 valid_add_days)

lemma variant_valid: "valid_date d \<Longrightarrow> variant d = month_index d"
  by (simp add: valid_date_def variant_def month_index_def)

lemma day_next_month_start: "next_month_start d = Inr r \<Longrightarrow> day r = 1"
  by (auto simp: next_month_start_def replace_day1_def split: sum.splits)

text \<open>
  The date that an iteration moves to is never the first day of year 1, so the subtraction
  of a day from it stays inside the range of \<open>datetime\<close>.
\<close>

lemma next_date_after_first_day:
  assumes "valid_date d" and "next_month_start d = Inr nd"
  shows "nd \<noteq> Date 1 1 1" and "valid_date (yesterday nd)"
proof -
  have v: "variant d < variant nd" using assms(2) by (rule variant_next_month_start)
  have "13 \<le> variant d" using assms(1) by (simp add: valid_date_def variant_def)
  with v have big: "13 < variant nd" by simp
  then show "nd \<noteq> Date 1 1 1" by (auto simp: variant_def)
  have nv: "valid_date nd" using assms(2,1) by (rule valid_next_month_start)
  have d1: "day nd = 1" using assms(2) by (rule day_next_month_start)
  show "valid_date (yesterday nd)"
  proof (cases "1 < month nd")
    case True
    with nv d1 show ?thesis
      by (auto simp: yesterday_def valid_date_def one_le_days_in_month)
  next
    case False
    with nv have m: "month nd = 1" by (simp add: valid_date_def)
    with big have "1 < year nd" by (simp add: variant_def)
    with nv d1 m show ?thesis
      by (auto simp: yesterday_def valid_date_def days_in_month_def)
  qed
qed

lemma logged_intervals_append:
  "logged_intervals (tr @ tr') = logged_intervals tr @ logged_intervals tr'"
  by (induction tr rule: logged_intervals.induct) simp_all

lemma fetch_loop_logged_intervals:
  "logged_intervals (snd (fetch_loop T c params retries tr)) = logged_intervals tr"
proof (induction T c params retries tr rule: fetch_loop.induct)
  case (1 T c params retries tr)
  show ?case
    using "1.IH"
    by (subst fetch_loop.simps) (auto simp: logged_intervals_append split: sum.splits)
qed

lemma fetch_data_interval_logged_intervals:
  "fetch_data_interval T c lat lon s e tr = (r, tr') \<Longrightarrow>
   logged_intervals tr' = logged_intervals tr"
  using fetch_loop_logged_intervals [of T c "request_params lat lon s e" 0 tr]
  by (simp add: fetch_data_interval_def)

lemma meteo_loop_iterations:
  "length (logged_intervals (snd (meteo_loop T c lat lon cur end_d acc tr))) \<le>
     length (logged_intervals tr) + (Suc (variant end_d) - variant cur)"
proof (induction T c lat lon cur end_d acc tr rule: meteo_loop.induct)
  case (1 T c lat lon cur end_d acc tr)
  show ?case
  proof (cases "date_le cur end_d")
    case False
    then show ?thesis by (simp add: meteo_loop_done)
  next
    case True
    show ?thesis
    proof (cases "next_month_start cur")
      case (Inl e)
      with True show ?thesis by (simp add: meteo_loop_overflow)
    next
      case nx: (Inr nd)
      let ?ie = "date_min (yesterday nd) end_d"
      let ?tr1 = "tr @ [Log INFO (FetchingInterval c cur ?ie)]"
      obtain r tr2 where f: "fetch_data_interval T c lat lon cur ?ie ?tr1 = (r, tr2)"
        by (cases "fetch_data_interval T c lat lon cur ?ie ?tr1")
      have n: "length (logged_intervals tr2) = Suc (length (logged_intervals tr))"
        using fetch_data_interval_logged_intervals [OF f] by (simp add: logged_intervals_append)
      have v: "variant cur < variant nd" using nx by (rule variant_next_month_start)
      have w: "variant cur \<le> variant end_d" using True by (rule date_le_variant)
      show ?thesis
      proof (cases r)
        case (Inr rows)
        have "meteo_loop T c lat lon cur end_d acc tr =
            meteo_loop T c lat lon nd end_d (acc @ rows) (tr2 @ [Sleep 1])"
          using True nx f [unfolded Inr] by (rule meteo_loop_fetched)
        with "1.IH"(2) [OF True nx refl refl f [symmetric] Inr] n v w show ?thesis
          by (simp add: logged_intervals_append)
      next
        case (Inl e)
        show ?thesis
        proof (cases "is_RuntimeError e")
          case rt: True
          have "meteo_loop T c lat lon cur end_d acc tr =
              meteo_loop T c lat lon nd end_d acc (tr2 @ [Log ERROR (ErrorMessage e), Sleep 1])"
            using True nx f [unfolded Inl] rt by (rule meteo_loop_skipped)
          with "1.IH"(1) [OF True nx refl refl f [symmetric] Inl rt] n v w show ?thesis
            by (simp add: logged_intervals_append)
        next
          case False
          have "meteo_loop T c lat lon cur end_d acc tr = (Inl e, tr2 @ [Sleep 1])"
            using True nx f [unfolded Inl] False by (rule meteo_loop_escaped)
          then show ?thesis using n w by (simp add: logged_intervals_append)
        qed
      qed
    qed
  qed
qed

subsection \<open>The sub-ranges\<close>

lemma add_days_add:
  "add_days (a + b) d = (case add_days a d of Inl e \<Rightarrow> Inl e | Inr r \<Rightarrow> add_days b r)"
  by (induction a arbitrary: d) (simp_all split: sum.splits)

lemma add_days_within_month:
  "day d + n \<le> days_in_month (year d) (month d) \<Longrightarrow>
   add_days n d = Inr (Date (year d) (month d) (day d + n))"
proof (induction n arbitrary: d)
  case 0
  show ?case by simp
next
  case (Suc n)
  then have t: "tomorrow d = Inr (Date (year d) (month d) (day d + 1))"
    by (simp add: tomorrow_def)
  with Suc.prems Suc.IH [of "Date (year d) (month d) (day d + 1)"] show ?case by simp
qed

lemma tomorrow_last_of_month:
  "month d < 12 \<or> year d < MAXYEAR \<Longrightarrow>
   tomorrow (last_of_month d) = Inr (first_of_next_month d)"
  by (auto simp: tomorrow_def last_of_month_def first_of_next_month_def)

lemma add_days_to_next_month:
  assumes "day d \<le> days_in_month (year d) (month d)"
    and "month d < 12 \<or> year d < MAXYEAR"
  shows "add_days (Suc (days_in_month (year d) (month d) - day d)) d =
           Inr (first_of_next_month d)"
proof -
  let ?k = "days_in_month (year d) (month d) - day d"
  have "add_days ?k d = Inr (Date (year d) (month d) (day d + ?k))"
    using assms(1) by (intro add_days_within_month) simp
  then have l: "add_days ?k d = Inr (last_of_month d)"
    using assms(1) by (simp add: last_of_month_def)
  have "add_days (?k + 1) d = tomorrow (last_of_month d)"
    by (simp only: add_days_add l) (simp split: sum.splits)
  then show ?thesis
    using tomorrow_last_of_month [OF assms(2)] by simp
qed

lemma next_month_start_early:
  assumes "valid_date d"
    and "day d + 32 \<le> days_in_month (year d) (month d) +
           days_in_month (year (first_of_next_month d)) (month (first_of_next_month d))"
    and "month d < 12 \<or> year d < MAXYEAR"
  shows "next_month_start d = Inr (first_of_next_month d)"
proof -
  let ?dim = "days_in_month (year d) (month d)"
  let ?f = "first_of_next_month d"
  have le: "day d \<le> ?dim" "1 \<le> day d" using assms(1) by (simp_all add: valid_date_def)
  have dim: "?dim \<le> 31" by (rule days_in_month_le)
  let ?k = "Suc (?dim - day d)"
  let ?r = "32 - ?k"
  have split: "32 = ?k + ?r" using le dim by simp
  have f1: "day ?f = 1" by (simp add: first_of_next_month_def)
  have "add_days 32 d = (case add_days ?k d of Inl e \<Rightarrow> Inl e | Inr r \<Rightarrow> add_days ?r r)"
    by (subst split) (rule add_days_add)
  also have "\<dots> = add_days ?r ?f"
    using le(1) assms(3) by (simp only: add_days_to_next_month) simp
  also have "\<dots> = Inr (Date (year ?f) (month ?f) (day ?f + ?r))"
  proof (rule add_days_within_month)
    show "day ?f + ?r \<le> days_in_month (year ?f) (month ?f)"
      using assms(2) le dim by (simp add: f1)
  qed
  finally show ?thesis
    by (simp add: next_month_start_def replace_day1_def first_of_next_month_def)
qed

lemma next_month_start_first_day:
  assumes "valid_date d" and "day d = 1" and "month d < 12 \<or> year d < MAXYEAR"
  shows "next_month_start d = Inr (first_of_next_month d)"
proof -
  have "28 \<le> days_in_month (year d) (month d)"
       "28 \<le> days_in_month (year (first_of_next_month d)) (month (first_of_next_month d))"
    by (rule days_in_month_ge)+
  then have "day d + 32 \<le> days_in_month (year d) (month d) +
           days_in_month (year (first_of_next_month d)) (month (first_of_next_month d))"
    using assms(2) by simp
  with assms(1) show ?thesis using assms(3) by (rule next_month_start_early)
qed

lemma valid_first_of_next_month:
  "valid_date d \<Longrightarrow> month d < 12 \<or> year d < MAXYEAR \<Longrightarrow>
   valid_date (first_of_next_month d)"
  by (auto simp: valid_date_def first_of_next_month_def one_le_days_in_month)

lemma next_month_start_late:
  assumes "valid_date d"
    and "days_in_month (year d) (month d) +
           days_in_month (year (first_of_next_month d)) (month (first_of_next_month d)) <
         day d + 32"
    and "month d < 11 \<or> year d < MAXYEAR"
  shows "next_month_start d = Inr (first_of_next_month (first_of_next_month d))"
proof -
  let ?dim = "days_in_month (year d) (month d)"
  let ?f = "first_of_next_month d"
  let ?dim' = "days_in_month (year ?f) (month ?f)"
  let ?g = "first_of_next_month ?f"
  have le: "day d \<le> ?dim" "1 \<le> day d" using assms(1) by (simp_all add: valid_date_def)
  have dim: "?dim \<le> 31" "?dim' \<le> 31" by (rule days_in_month_le)+
  have dim28: "28 \<le> ?dim'" "28 \<le> days_in_month (year ?g) (month ?g)"
    by (rule days_in_month_ge)+
  have f1: "day ?f = 1" "day ?g = 1" by (simp_all add: first_of_next_month_def)
  have c1: "month d < 12 \<or> year d < MAXYEAR" using assms(3) by auto
  have c2: "month ?f < 12 \<or> year ?f < MAXYEAR"
    using assms(3) by (auto simp: first_of_next_month_def)
  let ?k = "Suc (?dim - day d)"
  let ?k' = "Suc (?dim' - 1)"
  let ?r = "32 - ?k - ?k'"
  have split: "32 = ?k + (?k' + ?r)" using le dim dim28 assms(2) by simp
  have "add_days 32 d =
      (case add_days ?k d of Inl e \<Rightarrow> Inl e | Inr r \<Rightarrow> add_days (?k' + ?r) r)"
    by (subst split) (rule add_days_add)
  also have "\<dots> = add_days (?k' + ?r) ?f"
    using le(1) c1 by (simp only: add_days_to_next_month) simp
  also have "\<dots> = (case add_days ?k' ?f of Inl e \<Rightarrow> Inl e | Inr r \<Rightarrow> add_days ?r r)"
    by (rule add_days_add)
  also have "add_days ?k' ?f = Inr ?g"
    using add_days_to_next_month [of ?f] dim28 c2 by (simp add: f1)
  also have "(case Inr ?g of Inl e \<Rightarrow> Inl e | Inr r \<Rightarrow> add_days ?r r) = add_days ?r ?g"
    by simp
  also have "add_days ?r ?g = Inr (Date (year ?g) (month ?g) (day ?g + ?r))"
  proof (rule add_days_within_month)
    show "day ?g + ?r \<le> days_in_month (year ?g) (month ?g)"
      using le dim dim28 by (simp add: f1)
  qed
  finally show ?thesis
    by (simp add: next_month_start_def replace_day1_def first_of_next_month_def)
qed

lemma yesterday_first_of_next_month:
  "valid_date d \<Longrightarrow> yesterday (first_of_next_month d) = last_of_month d"
  by (auto simp: first_of_next_month_def yesterday_def last_of_month_def valid_date_def
                 days_in_month_def)

lemma valid_last_of_month: "valid_date d \<Longrightarrow> valid_date (last_of_month d)"
  by (simp add: valid_date_def last_of_month_def one_le_days_in_month)

lemma date_le_last_of_month: "valid_date d \<Longrightarrow> date_le d (last_of_month d)"
  by (cases d) (auto simp: valid_date_def last_of_month_def date_le_def date_less_def)

lemma date_less_first_of_next_month: "valid_date d \<Longrightarrow> date_less d (first_of_next_month d)"
  by (cases d) (auto simp: valid_date_def first_of_next_month_def date_less_def)

lemma date_le_trans: "date_le a b \<Longrightarrow> date_le b c \<Longrightarrow> date_le a c"
  by (cases a; cases b; cases c) (auto simp: date_le_def date_less_def)

lemma date_le_less_trans: "date_le a b \<Longrightarrow> date_less b c \<Longrightarrow> date_less a c"
  by (cases a; cases b; cases c) (auto simp: date_le_def date_less_def)

lemma date_less_imp_le: "date_less a b \<Longrightarrow> date_le a b"
  by (simp add: date_le_def)

lemma days_in_month_11_12: "days_in_month y 11 = 30" "days_in_month y 12 = 31"
  by (simp_all add: days_in_month_def)

lemma before_ceiling_cases:
  assumes "date_less d (Date MAXYEAR 11 30)"
  shows "year d < MAXYEAR \<or> month d < 11 \<or> (month d = 11 \<and> day d < 30)"
  using assms by (auto simp: date_less_def)

lemma next_month_start_before_ceiling:
  assumes "valid_date d" and "date_less d (Date MAXYEAR 11 30)"
  obtains x where "valid_date x" and "month x < 12 \<or> year x < MAXYEAR"
    and "next_month_start d = Inr (first_of_next_month x)"
    and "date_le d (last_of_month x)"
proof (cases "day d + 32 \<le> days_in_month (year d) (month d) +
           days_in_month (year (first_of_next_month d)) (month (first_of_next_month d))")
  case True
  have c: "month d < 12 \<or> year d < MAXYEAR"
    using before_ceiling_cases [OF assms(2)] by auto
  have "next_month_start d = Inr (first_of_next_month d)"
    using assms(1) True c by (rule next_month_start_early)
  moreover have "date_le d (last_of_month d)"
    using assms(1) by (rule date_le_last_of_month)
  ultimately show ?thesis using assms(1) c that by blast
next
  case False
  have c: "month d < 11 \<or> year d < MAXYEAR"
  proof (rule ccontr)
    assume "\<not> (month d < 11 \<or> year d < MAXYEAR)"
    with before_ceiling_cases [OF assms(2)] have m: "month d = 11" "day d < 30" by auto
    then have "day d + 32 \<le> days_in_month (year d) (month d) +
           days_in_month (year (first_of_next_month d)) (month (first_of_next_month d))"
      by (simp add: first_of_next_month_def days_in_month_11_12)
    with False show False by simp
  qed
  let ?f = "first_of_next_month d"
  have c1: "month d < 12 \<or> year d < MAXYEAR" using c by auto
  have vf: "valid_date ?f" using assms(1) c1 by (rule valid_first_of_next_month)
  have c2: "month ?f < 12 \<or> year ?f < MAXYEAR"
    using c by (auto simp: first_of_next_month_def)
  have n: "next_month_start d = Inr (first_of_next_month ?f)"
    using assms(1) False c by (intro next_month_start_late) simp_all
  have "date_le d ?f"
    using assms(1) by (intro date_less_imp_le date_less_first_of_next_month)
  then have "date_le d (last_of_month ?f)"
    using date_le_last_of_month [OF vf] by (rule date_le_trans)
  with vf c2 n that show ?thesis by blast
qed

lemma add_days_past_december:
  assumes "year d = MAXYEAR" and "month d = 12" and "day d \<le> 31" and "31 < day d + n"
  shows "add_days n d = Inl OverflowError"
proof -
  let ?k = "31 - day d"
  define m where "m = n - ?k - 1"
  have n: "n = ?k + Suc m"
    using assms(3,4) by (simp add: m_def)
  have "add_days ?k d = Inr (Date (year d) (month d) (day d + ?k))"
    using assms(2,3) by (intro add_days_within_month) (simp add: days_in_month_11_12)
  then have l: "add_days ?k d = Inr (Date MAXYEAR 12 31)"
    using assms(1,2,3) by simp
  have t: "tomorrow (Date MAXYEAR 12 31) = Inl OverflowError"
    by (simp add: tomorrow_def days_in_month_11_12)
  show ?thesis
    unfolding n add_days_add l by (simp add: t)
qed

lemma next_month_start_overflow:
  assumes "valid_date d" and "\<not> date_less d (Date MAXYEAR 11 30)"
  shows "next_month_start d = Inl OverflowError"
proof -
  from assms have y: "year d = MAXYEAR" and m11: "11 \<le> month d" and m12: "month d \<le> 12"
    and d30: "month d = 11 \<longrightarrow> 30 \<le> day d"
    and dim: "day d \<le> days_in_month (year d) (month d)"
    by (auto simp: valid_date_def date_less_def)
  have m: "month d = 12 \<or> (month d = 11 \<and> day d = 30)"
  proof (cases "month d = 11")
    case True
    with d30 dim show ?thesis by (simp add: days_in_month_11_12)
  next
    case False
    with m11 m12 show ?thesis by simp
  qed
  have "add_days 32 d = Inl OverflowError"
  proof (cases "month d = 12")
    case True
    with assms(1) have "day d \<le> 31" by (simp add: valid_date_def days_in_month_11_12)
    with y True show ?thesis by (intro add_days_past_december) simp_all
  next
    case False
    with m have n: "month d = 11" "day d = 30" by simp_all
    then have "tomorrow d = Inr (Date MAXYEAR 12 1)"
      using y by (simp add: tomorrow_def days_in_month_11_12)
    moreover have "add_days 31 (Date MAXYEAR 12 1) = Inl OverflowError"
      by (intro add_days_past_december) simp_all
    ultimately show ?thesis by (simp add: add_days_numeral)
  qed
  then show ?thesis by (simp add: next_month_start_def)
qed

lemma before_first_of_next_month:
  assumes "valid_date d" and "valid_date e" and "\<not> date_le (first_of_next_month d) e"
  shows "date_le e (last_of_month d)"
proof (cases d; cases e)
  fix y m k y' m' k'
  assume d: "d = Date y m k" and e: "e = Date y' m' k'"
  from assms(1) d have m: "1 \<le> m" "m \<le> 12" by (simp_all add: valid_date_def)
  from assms(2) e have k': "k' \<le> days_in_month y' m'" "1 \<le> k'" "1 \<le> m'" "m' \<le> 12"
    by (simp_all add: valid_date_def)
  have "y' < y \<or> (y' = y \<and> m' \<le> m)"
    using assms(3) m k' unfolding d e first_of_next_month_def date_le_def date_less_def
    by (simp split: if_splits) linarith+
  then show ?thesis
    using k' unfolding d e last_of_month_def date_le_def date_less_def
    by (simp add: le_less) blast
qed

lemma clip_reached_end:
  assumes "valid_date d" and "valid_date e" and "\<not> date_le (first_of_next_month d) e"
  shows "date_min (last_of_month d) e = e"
  using before_first_of_next_month [OF assms]
  by (auto simp: date_min_def date_le_def)

lemma clip_before_end:
  "valid_date d \<Longrightarrow> date_le (first_of_next_month d) e \<Longrightarrow>
   date_min (last_of_month d) e = last_of_month d"
  by (cases d; cases e)
     (auto simp: valid_date_def first_of_next_month_def last_of_month_def date_min_def
                 date_le_def date_less_def split: if_splits)

lemma sub_ranges_covers:
  "valid_date cur \<Longrightarrow> valid_date end_d \<Longrightarrow> date_le cur end_d \<Longrightarrow>
   date_less end_d (Date MAXYEAR 11 30) \<Longrightarrow>
   covers cur end_d (sub_ranges cur end_d)"
proof (induction cur end_d rule: sub_ranges.induct)
  case (1 cur end_d)
  have "date_less cur (Date MAXYEAR 11 30)"
    using "1.prems"(3,4) by (rule date_le_less_trans)
  with "1.prems"(1) obtain x where x: "valid_date x" "month x < 12 \<or> year x < MAXYEAR"
    "next_month_start cur = Inr (first_of_next_month x)" "date_le cur (last_of_month x)"
    by (rule next_month_start_before_ceiling)
  let ?next = "first_of_next_month x"
  have y: "yesterday ?next = last_of_month x"
    using x(1) by (rule yesterday_first_of_next_month)
  have s: "sub_ranges cur end_d =
      (cur, date_min (last_of_month x) end_d) # sub_ranges ?next end_d"
    using "1.prems"(3) by (subst sub_ranges.simps) (simp add: x(3) y)
  show ?case
  proof (cases "date_le ?next end_d")
    case True
    have nv: "valid_date ?next" using x(1,2) by (rule valid_first_of_next_month)
    have ih: "covers ?next end_d (sub_ranges ?next end_d)"
      using "1.IH" [OF "1.prems"(3) x(3) nv "1.prems"(2) True "1.prems"(4)] .
    have clip: "date_min (last_of_month x) end_d = last_of_month x"
      using x(1) True by (rule clip_before_end)
    have "sub_ranges ?next end_d \<noteq> []"
      using ih by (cases "sub_ranges ?next end_d") simp_all
    then obtain a b rest where r: "sub_ranges ?next end_d = (a, b) # rest"
      by (cases "sub_ranges ?next end_d") auto
    with ih have a: "a = ?next" by (cases rest) auto
    from ih r a have c: "covers ?next end_d ((?next, b) # rest)" by simp
    have "covers cur end_d ((cur, last_of_month x) # (?next, b) # rest)"
      using c x(4) tomorrow_last_of_month [OF x(2)] by simp
    then show ?thesis unfolding s clip r a .
  next
    case False
    then have e: "sub_ranges ?next end_d = []" by (subst sub_ranges.simps) simp
    have clip: "date_min (last_of_month x) end_d = end_d"
      using x(1) "1.prems"(2) False by (rule clip_reached_end)
    show ?thesis using "1.prems"(3) by (simp add: s e clip)
  qed
qed

lemma sub_ranges_full_month:
  assumes "valid_date cur" and "day cur = 1" and "valid_date end_d"
    and "date_le (first_of_next_month cur) end_d"
  shows "sub_ranges cur end_d =
           (cur, last_of_month cur) # sub_ranges (first_of_next_month cur) end_d"
proof -
  have "year (first_of_next_month cur) \<le> year end_d"
    using assms(4) by (auto simp: date_le_def date_less_def)
  then have c: "month cur < 12 \<or> year cur < MAXYEAR"
    using assms(3) by (auto simp: first_of_next_month_def valid_date_def split: if_splits)
  have n: "next_month_start cur = Inr (first_of_next_month cur)"
    using assms(1,2) c by (rule next_month_start_first_day)
  have y: "yesterday (first_of_next_month cur) = last_of_month cur"
    using assms(1) by (rule yesterday_first_of_next_month)
  have "date_le cur (first_of_next_month cur)"
    using assms(1) by (intro date_less_imp_le date_less_first_of_next_month)
  then have le: "date_le cur end_d" using assms(4) by (rule date_le_trans)
  have clip: "date_min (last_of_month cur) end_d = last_of_month cur"
    using assms(1,4) by (rule clip_before_end)
  show ?thesis
    using le by (subst sub_ranges.simps) (simp add: n y clip)
qed

lemma meteo_loop_sub_ranges:
  "fst (meteo_loop T c lat lon cur end_d acc tr) = Inr rows \<Longrightarrow>
   logged_intervals (snd (meteo_loop T c lat lon cur end_d acc tr)) =
     logged_intervals tr @ sub_ranges cur end_d"
proof (induction T c lat lon cur end_d acc tr rule: meteo_loop.induct)
  case (1 T c lat lon cur end_d acc tr)
  show ?case
  proof (cases "date_le cur end_d")
    case False
    then show ?thesis
      by (subst sub_ranges.simps) (simp add: meteo_loop_done)
  next
    case True
    show ?thesis
    proof (cases "next_month_start cur")
      case (Inl e)
      with True "1.prems" show ?thesis by (simp add: meteo_loop_overflow)
    next
      case nx: (Inr nd)
      let ?ie = "date_min (yesterday nd) end_d"
      let ?tr1 = "tr @ [Log INFO (FetchingInterval c cur ?ie)]"
      obtain r tr2 where f: "fetch_data_interval T c lat lon cur ?ie ?tr1 = (r, tr2)"
        by (cases "fetch_data_interval T c lat lon cur ?ie ?tr1")
      have n: "logged_intervals tr2 = logged_intervals tr @ [(cur, ?ie)]"
        using fetch_data_interval_logged_intervals [OF f] by (simp add: logged_intervals_append)
      have s: "sub_ranges cur end_d = (cur, ?ie) # sub_ranges nd end_d"
        using True nx by (subst sub_ranges.simps) simp
      show ?thesis
      proof (cases r)
        case (Inr rows')
        have eq: "meteo_loop T c lat lon cur end_d acc tr =
            meteo_loop T c lat lon nd end_d (acc @ rows') (tr2 @ [Sleep 1])"
          using True nx f [unfolded Inr] by (rule meteo_loop_fetched)
        with "1.prems"
        have "fst (meteo_loop T c lat lon nd end_d (acc @ rows') (tr2 @ [Sleep 1])) = Inr rows"
          by simp
        from "1.IH"(2) [OF True nx refl refl f [symmetric] Inr this] show ?thesis
          by (simp add: eq n s logged_intervals_append)
      next
        case (Inl e)
        show ?thesis
        proof (cases "is_RuntimeError e")
          case rt: True
          have eq: "meteo_loop T c lat lon cur end_d acc tr =
              meteo_loop T c lat lon nd end_d acc (tr2 @ [Log ERROR (ErrorMessage e), Sleep 1])"
            using True nx f [unfolded Inl] rt by (rule meteo_loop_skipped)
          with "1.prems"
          have "fst (meteo_loop T c lat lon nd end_d acc
              (tr2 @ [Log ERROR (ErrorMessage e), Sleep 1])) = Inr rows"
            by simp
          from "1.IH"(1) [OF True nx refl refl f [symmetric] Inl rt this] show ?thesis
            by (simp add: eq n s logged_intervals_append)
        next
          case False
          have "meteo_loop T c lat lon cur end_d acc tr = (Inl e, tr2 @ [Sleep 1])"
            using True nx f [unfolded Inl] False by (rule meteo_loop_escaped)
          with "1.prems" show ?thesis by simp
        qed
      qed
    qed
  qed
qed

lemma fetcher_error_not_overflow: "is_fetcher_error e \<Longrightarrow> e \<noteq> OverflowError"
  by (cases e) simp_all

lemma meteo_loop_no_overflow:
  "valid_date cur \<Longrightarrow> date_less end_d (Date MAXYEAR 11 30) \<Longrightarrow>
   fst (meteo_loop T c lat lon cur end_d acc tr) \<noteq> Inl OverflowError"
proof (induction T c lat lon cur end_d acc tr rule: meteo_loop.induct)
  case (1 T c lat lon cur end_d acc tr)
  show ?case
  proof (cases "date_le cur end_d")
    case False
    then show ?thesis by (simp add: meteo_loop_done)
  next
    case True
    then have "date_less cur (Date MAXYEAR 11 30)"
      using "1.prems"(2) by (rule date_le_less_trans)
    with "1.prems"(1) obtain x where "next_month_start cur = Inr (first_of_next_month x)"
      by (rule next_month_start_before_ceiling)
    then obtain nd where nx: "next_month_start cur = Inr nd" by blast
    have nv: "valid_date nd" using nx "1.prems"(1) by (rule valid_next_month_start)
    let ?ie = "date_min (yesterday nd) end_d"
    let ?tr1 = "tr @ [Log INFO (FetchingInterval c cur ?ie)]"
    obtain r tr2 where f: "fetch_data_interval T c lat lon cur ?ie ?tr1 = (r, tr2)"
      by (cases "fetch_data_interval T c lat lon cur ?ie ?tr1")
    show ?thesis
    proof (cases r)
      case (Inr rows)
      have "meteo_loop T c lat lon cur end_d acc tr =
          meteo_loop T c lat lon nd end_d (acc @ rows) (tr2 @ [Sleep 1])"
        using True nx f [unfolded Inr] by (rule meteo_loop_fetched)
      with "1.IH"(2) [OF True nx refl refl f [symmetric] Inr nv "1.prems"(2)] show ?thesis
        by simp
    next
      case (Inl e)
      have ne: "e \<noteq> OverflowError"
        using f Inl fetch_data_interval_error fetcher_error_not_overflow by blast
      show ?thesis
      proof (cases "is_RuntimeError e")
        case rt: True
        have "meteo_loop T c lat lon cur end_d acc tr =
            meteo_loop T c lat lon nd end_d acc (tr2 @ [Log ERROR (ErrorMessage e), Sleep 1])"
          using True nx f [unfolded Inl] rt by (rule meteo_loop_skipped)
        with "1.IH"(1) [OF True nx refl refl f [symmetric] Inl rt nv "1.prems"(2)] show ?thesis
          by simp
      next
        case False
        have "meteo_loop T c lat lon cur end_d acc tr = (Inl e, tr2 @ [Sleep 1])"
          using True nx f [unfolded Inl] False by (rule meteo_loop_escaped)
        with ne show ?thesis by simp
      qed
    qed
  qed
qed

subsection \<open>Termination and the first sub-range\<close>

text \<open>
  Claim C10 as amended. \<open>meteo_loop\<close> is defined by well-founded recursion: its termination
  proof above uses the month of the current date as variant, so the loop ends for all dates.
  For dates of the calendar with the current date not after the end date and the end date
  before 30 November of year \<open>MAXYEAR\<close>: the addition of 32 days does not raise, and the date
  that the iteration moves to is the first day of a strictly later month; the iteration
  either goes on from that date, after a successful fetch as after a caught \<open>RuntimeError\<close>,
  or leaves the loop with an exception of another class that the fetcher raised; the loop
  never ends with \<open>OverflowError\<close>; and it runs at most once per month from the month of the
  current date to the month of the end date.
\<close>

theorem loop_advances_to_later_month:
  assumes "valid_date cur" and "valid_date end_d" and "date_le cur end_d"
    and "date_less end_d (Date MAXYEAR 11 30)"
  shows "(\<exists>nd. next_month_start cur = Inr nd \<and> day nd = 1 \<and> valid_date nd \<and>
               month_index cur < month_index nd \<and>
               ((\<exists>acc' tr'. meteo_loop T c lat lon cur end_d acc tr =
                              meteo_loop T c lat lon nd end_d acc' tr') \<or>
                (\<exists>e tr'. meteo_loop T c lat lon cur end_d acc tr = (Inl e, tr') \<and>
                          \<not> is_RuntimeError e \<and> is_fetcher_error e))) \<and>
         fst (meteo_loop T c lat lon cur end_d acc tr) \<noteq> Inl OverflowError \<and>
         length (logged_intervals (snd (meteo_loop T c lat lon cur end_d acc tr))) \<le>
           length (logged_intervals tr) + (Suc (month_index end_d) - month_index cur)"
proof -
  have "date_less cur (Date MAXYEAR 11 30)"
    using assms(3,4) by (rule date_le_less_trans)
  with assms(1) obtain x where "next_month_start cur = Inr (first_of_next_month x)"
    by (rule next_month_start_before_ceiling)
  then obtain nd where nx: "next_month_start cur = Inr nd" by blast
  have nv: "valid_date nd" using nx assms(1) by (rule valid_next_month_start)
  have d1: "day nd = 1" using nx by (rule day_next_month_start)
  have "variant cur < variant nd" using nx by (rule variant_next_month_start)
  then have later: "month_index cur < month_index nd"
    using assms(1) nv by (simp add: variant_valid)
  let ?ie = "date_min (yesterday nd) end_d"
  let ?tr1 = "tr @ [Log INFO (FetchingInterval c cur ?ie)]"
  obtain r tr2 where f: "fetch_data_interval T c lat lon cur ?ie ?tr1 = (r, tr2)"
    by (cases "fetch_data_interval T c lat lon cur ?ie ?tr1")
  have step: "(\<exists>acc' tr'. meteo_loop T c lat lon cur end_d acc tr =
                          meteo_loop T c lat lon nd end_d acc' tr') \<or>
            (\<exists>e tr'. meteo_loop T c lat lon cur end_d acc tr = (Inl e, tr') \<and>
                      \<not> is_RuntimeError e \<and> is_fetcher_error e)"
  proof (cases r)
    case (Inr rows)
    have "meteo_loop T c lat lon cur end_d acc tr =
        meteo_loop T c lat lon nd end_d (acc @ rows) (tr2 @ [Sleep 1])"
      using assms(3) nx f [unfolded Inr] by (rule meteo_loop_fetched)
    then show ?thesis by blast
  next
    case (Inl e)
    have fe: "is_fetcher_error e" using f [unfolded Inl] by (rule fetch_data_interval_error)
    show ?thesis
    proof (cases "is_RuntimeError e")
      case True
      have "meteo_loop T c lat lon cur end_d acc tr =
          meteo_loop T c lat lon nd end_d acc (tr2 @ [Log ERROR (ErrorMessage e), Sleep 1])"
        using assms(3) nx f [unfolded Inl] True by (rule meteo_loop_skipped)
      then show ?thesis by blast
    next
      case False
      have "meteo_loop T c lat lon cur end_d acc tr = (Inl e, tr2 @ [Sleep 1])"
        using assms(3) nx f [unfolded Inl] False by (rule meteo_loop_escaped)
      with False fe show ?thesis by blast
    qed
  qed
  have no: "fst (meteo_loop T c lat lon cur end_d acc tr) \<noteq> Inl OverflowError"
    using assms(1,4) by (rule meteo_loop_no_overflow)
  have "length (logged_intervals (snd (meteo_loop T c lat lon cur end_d acc tr))) \<le>
           length (logged_intervals tr) + (Suc (variant end_d) - variant cur)"
    by (rule meteo_loop_iterations)
  then have bound: "length (logged_intervals (snd (meteo_loop T c lat lon cur end_d acc tr))) \<le>
           length (logged_intervals tr) + (Suc (month_index end_d) - month_index cur)"
    using assms(1,2) by (simp add: variant_valid)
  from nx d1 nv later step no bound show ?thesis by blast
qed

theorem loop_advances_to_later_month_witness:
  "valid_date (Date 2020 1 1) \<and> valid_date (Date 2020 12 31) \<and>
   date_le (Date 2020 1 1) (Date 2020 12 31) \<and>
   date_less (Date 2020 12 31) (Date MAXYEAR 11 30) \<and>
   next_month_start (Date 2020 1 1) = Inr (Date 2020 2 1) \<and>
   length (logged_intervals (snd (meteo_loop mock_transport ''Madrid'' 40.4168 (- 3.7038)
             (Date 2020 1 1) (Date 2020 12 31) [] []))) \<le> 12"
proof -
  have v: "valid_date (Date 2020 1 1)" "valid_date (Date 2020 12 31)"
    by (simp_all add: valid_date_def days_in_month_def leap_def MAXYEAR_def)
  have l: "date_le (Date 2020 1 1) (Date 2020 12 31)"
    "date_less (Date 2020 12 31) (Date MAXYEAR 11 30)"
    by (simp_all add: date_le_def date_less_def MAXYEAR_def)
  have n: "next_month_start (Date 2020 1 1) = Inr (Date 2020 2 1)"
    by (simp add: calendar_eval)
  show ?thesis
    using v l n loop_advances_to_later_month
      [OF v l, of mock_transport "''Madrid''" "40.4168" "- 3.7038" "[]" "[]"]
    by (simp add: month_index_def)
qed

text \<open>
  Claim C10 as stated fails at the end of the range of \<open>datetime\<close>: from the current date
  9999-12-01 the addition of 32 days raises \<open>OverflowError\<close>, so the iteration does not move
  to a later month and \<open>get_meteo_data\<close> raises before any request. The lemma
  \<open>next_month_start_overflow\<close> gives the same for every current date from 9999-11-30 on.
\<close>

theorem year_ceiling_ends_loop:
  "next_month_start (Date 9999 12 1) = Inl OverflowError \<and>
   get_meteo_data mock_transport ''Madrid'' (Date 9999 12 1) (Date 9999 12 31) ''month'' [] =
     (Inl OverflowError, [])"
  by (simp add: meteo_eval)

text \<open>
  Claim C2 fails on the code when the start date lies late in its month. Adding 32 days to
  2020-01-31 gives 2020-03-03, so the next date is 2020-03-01 and the first sub-range runs
  from 2020-01-31 to 2020-02-29: it does not end with January. The lemmas above give the
  rest of the claim: the sub-ranges of a run are \<open>sub_ranges\<close> (\<open>meteo_loop_sub_ranges\<close>), they
  cover the range without gap or overlap (\<open>sub_ranges_covers\<close>), a sub-range that starts on the
  first day of a month and is not the last is that whole month (\<open>sub_ranges_full_month\<close>),
  and the first sub-range ends with its month when the start date is early enough
  (\<open>next_month_start_early\<close>) and with the month after when it is not
  (\<open>next_month_start_late\<close>).
\<close>

theorem late_start_skips_month_end:
  "logged_intervals (snd (get_meteo_data empty_series_transport ''Madrid''
        (Date 2020 1 31) (Date 2020 3 15) ''month'' [])) =
     [(Date 2020 1 31, Date 2020 2 29), (Date 2020 3 1, Date 2020 3 15)]"
  by (simp add: meteo_eval empty_series_transport_def)

section \<open>get_meteo_data: errors of the fetcher\<close>

lemma meteo_loop_returns:
  assumes "\<And>cur ie tr0 e tr1.
             fetch_data_interval T c lat lon cur ie tr0 = (Inl e, tr1) \<Longrightarrow> is_RuntimeError e"
    and "valid_date cur" and "date_less end_d (Date MAXYEAR 11 30)"
  shows "\<exists>rows tr'. meteo_loop T c lat lon cur end_d acc tr = (Inr rows, tr')"
  using assms
proof (induction T c lat lon cur end_d acc tr rule: meteo_loop.induct)
  case (1 T c lat lon cur end_d acc tr)
  show ?case
  proof (cases "date_le cur end_d")
    case False
    then show ?thesis by (simp add: meteo_loop_done)
  next
    case True
    then have "date_less cur (Date MAXYEAR 11 30)"
      using "1.prems"(3) by (rule date_le_less_trans)
    with "1.prems"(2) obtain x where "next_month_start cur = Inr (first_of_next_month x)"
      by (rule next_month_start_before_ceiling)
    then obtain nd where nx: "next_month_start cur = Inr nd" by blast
    have nv: "valid_date nd" using nx "1.prems"(2) by (rule valid_next_month_start)
    let ?ie = "date_min (yesterday nd) end_d"
    let ?tr1 = "tr @ [Log INFO (FetchingInterval c cur ?ie)]"
    obtain r tr2 where f: "fetch_data_interval T c lat lon cur ?ie ?tr1 = (r, tr2)"
      by (cases "fetch_data_interval T c lat lon cur ?ie ?tr1")
    show ?thesis
    proof (cases r)
      case (Inr rows)
      have "meteo_loop T c lat lon cur end_d acc tr =
          meteo_loop T c lat lon nd end_d (acc @ rows) (tr2 @ [Sleep 1])"
        using True nx f [unfolded Inr] by (rule meteo_loop_fetched)
      with "1.IH"(2) [OF True nx refl refl f [symmetric] Inr "1.prems"(1) nv "1.prems"(3)]
      show ?thesis by simp
    next
      case (Inl e)
      then have rt: "is_RuntimeError e" using f "1.prems"(1) by blast
      have "meteo_loop T c lat lon cur end_d acc tr =
            meteo_loop T c lat lon nd end_d acc (tr2 @ [Log ERROR (ErrorMessage e), Sleep 1])"
        using True nx f [unfolded Inl] rt by (rule meteo_loop_skipped)
      with "1.IH"(1) [OF True nx refl refl f [symmetric] Inl rt "1.prems"(1) nv "1.prems"(3)]
      show ?thesis by simp
    qed
  qed
qed

lemma timeout_transport_fetch:
  "fst (fetch_data_interval timeout_transport c lat lon cur ie tr0) =
     Inl (RuntimeError (MaxRetriesExceeded MAX_RETRIES))"
proof -
  have "\<And>k. \<exists>e. attempt c (timeout_transport k (request_params lat lon cur ie)) = Inl e \<and>
                 is_RequestException e"
    by (simp add: attempt_def timeout_transport_def)
  then show ?thesis
    unfolding fetch_data_interval_def by (subst fetch_loop_all_retried) simp_all
qed

text \<open>
  Claim C4 as amended. For a city of \<open>COORDINATES\<close>, the interval \<open>month\<close>, and dates of the
  calendar with the end date before 30 November of year \<open>MAXYEAR\<close>: when
  \<open>fetch_data_interval\<close> raises nothing but \<open>RuntimeError\<close> (the retries are used up, or the
  payload fails validation), \<open>get_meteo_data\<close> returns a dataset; an iteration whose
  fetch raises a \<open>RuntimeError\<close> logs it, sleeps and goes on with the next month and the
  rows collected so far; and an iteration whose fetch raises an exception of another class
  sleeps and raises that exception.
\<close>

theorem runtime_errors_are_skipped:
  assumes "COORDINATES c = Some \<lparr>latitude = lat, longitude = lon\<rparr>"
    and "valid_date start" and "valid_date end_d"
    and "date_less end_d (Date MAXYEAR 11 30)"
  shows "((\<forall>cur ie tr0 e tr1.
             fetch_data_interval T c lat lon cur ie tr0 = (Inl e, tr1) \<longrightarrow> is_RuntimeError e) \<longrightarrow>
          (\<exists>rows tr'. get_meteo_data T c start end_d ''month'' tr = (Inr rows, tr'))) \<and>
         (\<forall>cur nd acc tr0 m tr2.
            date_le cur end_d \<and> next_month_start cur = Inr nd \<and>
            fetch_data_interval T c lat lon cur (date_min (yesterday nd) end_d)
              (tr0 @ [Log INFO (FetchingInterval c cur (date_min (yesterday nd) end_d))]) =
              (Inl (RuntimeError m), tr2) \<longrightarrow>
            meteo_loop T c lat lon cur end_d acc tr0 =
              meteo_loop T c lat lon nd end_d acc
                (tr2 @ [Log ERROR (ErrorMessage (RuntimeError m)), Sleep 1])) \<and>
         (\<forall>cur nd acc tr0 e tr2.
            date_le cur end_d \<and> next_month_start cur = Inr nd \<and> \<not> is_RuntimeError e \<and>
            fetch_data_interval T c lat lon cur (date_min (yesterday nd) end_d)
              (tr0 @ [Log INFO (FetchingInterval c cur (date_min (yesterday nd) end_d))]) =
              (Inl e, tr2) \<longrightarrow>
            meteo_loop T c lat lon cur end_d acc tr0 = (Inl e, tr2 @ [Sleep 1]))"
proof (intro conjI allI impI)
  assume "\<forall>cur ie tr0 e tr1.
             fetch_data_interval T c lat lon cur ie tr0 = (Inl e, tr1) \<longrightarrow> is_RuntimeError e"
  then have "\<And>cur ie tr0 e tr1.
             fetch_data_interval T c lat lon cur ie tr0 = (Inl e, tr1) \<Longrightarrow> is_RuntimeError e"
    by blast
  then have "\<exists>rows tr'. meteo_loop T c lat lon start end_d [] tr = (Inr rows, tr')"
    using assms(2,4) by (rule meteo_loop_returns)
  then show "\<exists>rows tr'. get_meteo_data T c start end_d ''month'' tr = (Inr rows, tr')"
    using assms(1) by (simp add: get_meteo_data_def)
next
  fix cur nd acc tr0 m tr2
  assume "date_le cur end_d \<and> next_month_start cur = Inr nd \<and>
            fetch_data_interval T c lat lon cur (date_min (yesterday nd) end_d)
              (tr0 @ [Log INFO (FetchingInterval c cur (date_min (yesterday nd) end_d))]) =
              (Inl (RuntimeError m), tr2)"
  then have "date_le cur end_d" and "next_month_start cur = Inr nd"
    and "fetch_data_interval T c lat lon cur (date_min (yesterday nd) end_d)
              (tr0 @ [Log INFO (FetchingInterval c cur (date_min (yesterday nd) end_d))]) =
              (Inl (RuntimeError m), tr2)"
    and "is_RuntimeError (RuntimeError m)"
    by simp_all
  then show "meteo_loop T c lat lon cur end_d acc tr0 =
              meteo_loop T c lat lon nd end_d acc
                (tr2 @ [Log ERROR (ErrorMessage (RuntimeError m)), Sleep 1])"
    by (rule meteo_loop_skipped)
next
  fix cur nd acc tr0 e tr2
  assume "date_le cur end_d \<and> next_month_start cur = Inr nd \<and> \<not> is_RuntimeError e \<and>
            fetch_data_interval T c lat lon cur (date_min (yesterday nd) end_d)
              (tr0 @ [Log INFO (FetchingInterval c cur (date_min (yesterday nd) end_d))]) =
              (Inl e, tr2)"
  then have "date_le cur end_d" and "next_month_start cur = Inr nd"
    and "fetch_data_interval T c lat lon cur (date_min (yesterday nd) end_d)
              (tr0 @ [Log INFO (FetchingInterval c cur (date_min (yesterday nd) end_d))]) =
              (Inl e, tr2)"
    and "\<not> is_RuntimeError e"
    by simp_all
  then show "meteo_loop T c lat lon cur end_d acc tr0 = (Inl e, tr2 @ [Sleep 1])"
    by (rule meteo_loop_escaped)
qed

theorem runtime_errors_are_skipped_witness:
  "COORDINATES ''Madrid'' = Some \<lparr>latitude = 40.4168, longitude = - 3.7038\<rparr> \<and>
   valid_date (Date 2020 1 1) \<and> valid_date (Date 2020 3 15) \<and>
   date_less (Date 2020 3 15) (Date MAXYEAR 11 30) \<and>
   (\<exists>rows tr'. get_meteo_data timeout_transport ''Madrid'' (Date 2020 1 1) (Date 2020 3 15)
                  ''month'' [] = (Inr rows, tr')) \<and>
   meteo_loop no_date_transport ''Madrid'' 40.4168 (- 3.7038) (Date 2020 1 1) (Date 2020 3 15)
       [] [] =
     (Inl (KeyError ''date''),
      [Log INFO (FetchingInterval ''Madrid'' (Date 2020 1 1) (Date 2020 1 31)),
       Get API_URL (request_params 40.4168 (- 3.7038) (Date 2020 1 1) (Date 2020 1 31)),
       Sleep 1])"
proof -
  have c: "COORDINATES ''Madrid'' = Some \<lparr>latitude = 40.4168, longitude = - 3.7038\<rparr>"
    by (simp add: COORDINATES_def)
  have v: "valid_date (Date 2020 1 1)" "valid_date (Date 2020 3 15)"
    by (simp_all add: valid_date_def days_in_month_def leap_def MAXYEAR_def)
  have l: "date_less (Date 2020 3 15) (Date MAXYEAR 11 30)"
    by (simp add: date_less_def MAXYEAR_def)
  have only_runtime: "\<forall>cur ie tr0 e tr1.
      fetch_data_interval timeout_transport ''Madrid'' 40.4168 (- 3.7038) cur ie tr0 =
        (Inl e, tr1) \<longrightarrow> is_RuntimeError e"
  proof (intro allI impI)
    fix cur ie tr0 e tr1
    assume "fetch_data_interval timeout_transport ''Madrid'' 40.4168 (- 3.7038) cur ie tr0 =
              (Inl e, tr1)"
    then show "is_RuntimeError e"
      using timeout_transport_fetch [of "''Madrid''" "40.4168" "- 3.7038" cur ie tr0]
      by simp
  qed
  have returns: "\<exists>rows tr'. get_meteo_data timeout_transport ''Madrid'' (Date 2020 1 1)
      (Date 2020 3 15) ''month'' [] = (Inr rows, tr')"
    using runtime_errors_are_skipped [OF c v l, of timeout_transport "[]", THEN conjunct1]
      only_runtime
    by blast
  have n: "next_month_start (Date 2020 1 1) = Inr (Date 2020 2 1)"
    by (simp add: calendar_eval)
  have le: "date_le (Date 2020 1 1) (Date 2020 3 15)"
    by (simp add: date_le_def date_less_def)
  have ie: "date_min (yesterday (Date 2020 2 1)) (Date 2020 3 15) = Date 2020 1 31"
    by (simp add: calendar_eval)
  have f: "fetch_data_interval no_date_transport ''Madrid'' 40.4168 (- 3.7038) (Date 2020 1 1)
        (date_min (yesterday (Date 2020 2 1)) (Date 2020 3 15))
        ([] @ [Log INFO (FetchingInterval ''Madrid'' (Date 2020 1 1)
                 (date_min (yesterday (Date 2020 2 1)) (Date 2020 3 15)))]) =
      (Inl (KeyError ''date''),
       [Log INFO (FetchingInterval ''Madrid'' (Date 2020 1 1) (Date 2020 1 31)),
        Get API_URL (request_params 40.4168 (- 3.7038) (Date 2020 1 1) (Date 2020 1 31))])"
    unfolding ie by (simp add: fetch_eval no_date_transport_def)
  have nrt: "\<not> is_RuntimeError (KeyError ''date'')" by simp
  have "meteo_loop no_date_transport ''Madrid'' 40.4168 (- 3.7038) (Date 2020 1 1)
      (Date 2020 3 15) [] [] =
     (Inl (KeyError ''date''),
      [Log INFO (FetchingInterval ''Madrid'' (Date 2020 1 1) (Date 2020 1 31)),
       Get API_URL (request_params 40.4168 (- 3.7038) (Date 2020 1 1) (Date 2020 1 31))] @
      [Sleep 1])"
    by (rule runtime_errors_are_skipped [OF c v l, THEN conjunct2, THEN conjunct2, rule_format])
       (rule conjI [OF le conjI [OF n conjI [OF nrt f]]])
  then have escapes: "meteo_loop no_date_transport ''Madrid'' 40.4168 (- 3.7038) (Date 2020 1 1)
      (Date 2020 3 15) [] [] =
     (Inl (KeyError ''date''),
      [Log INFO (FetchingInterval ''Madrid'' (Date 2020 1 1) (Date 2020 1 31)),
       Get API_URL (request_params 40.4168 (- 3.7038) (Date 2020 1 1) (Date 2020 1 31)),
       Sleep 1])"
    by simp
  from c v l returns escapes show ?thesis by blast
qed

text \<open>
  Claim C4 as stated fails: an exception of the fetcher that is not a \<open>RuntimeError\<close> is
  not caught. A payload that passes validation and has no \<open>date\<close> series makes the fetcher
  raise \<open>KeyError\<close>, and \<open>get_meteo_data\<close> raises it too.
\<close>

theorem fetcher_key_error_escapes:
  "fst (fetch_data_interval no_date_transport ''Madrid'' 40.4168 (- 3.7038)
          (Date 2020 1 1) (Date 2020 1 3) []) = Inl (KeyError ''date'') \<and>
   fst (get_meteo_data no_date_transport ''Madrid'' (Date 2020 1 1) (Date 2020 1 3)
          ''month'' []) = Inl (KeyError ''date'')"
  by (simp add: meteo_eval no_date_transport_def)

section \<open>The entry point\<close>

text \<open>
  Claim C8. Whatever error (an exception of class \<open>Exception\<close>) comes out of \<open>main\<close>, the
  entry point logs it at level error and the interpreter ends normally: nothing is left
  uncaught.
\<close>

theorem entry_point_logs_and_exits_normally:
  assumes "main env T tr = (Inl e, tr1)" and "is_Exception e"
  shows "run_module env T tr = (ExitedNormally, tr1 @ [Log ERROR (UnexpectedError e)])"
  using assms by (simp add: run_module_def)

theorem entry_point_logs_and_exits_normally_witness:
  "main broken_disk_env mock_transport [] =
     (Inl (Raised (OtherException ''ParserError'')), [Log INFO LoadingData]) \<and>
   is_Exception (Raised (OtherException ''ParserError'')) \<and>
   run_module broken_disk_env mock_transport [] =
     (ExitedNormally, [Log INFO LoadingData,
                       Log ERROR (UnexpectedError (Raised (OtherException ''ParserError'')))])"
proof -
  have m: "main broken_disk_env mock_transport [] =
     (Inl (Raised (OtherException ''ParserError'')), [Log INFO LoadingData])"
    by (simp add: main_def load_or_fetch_def broken_disk_env_def lift_lib_def)
  have e: "is_Exception (Raised (OtherException ''ParserError''))" by simp
  show ?thesis using m e entry_point_logs_and_exits_normally [OF m e] by simp
qed

end
